theory Spec2Isabelle
  imports Main "HOL-Library.Sublist"
begin

section \<open>Strings as the analyzer uses them\<close>

text \<open>
  Python strings are modelled as \<open>string\<close> (lists of \<open>char\<close>), one \<open>char\<close> per
  character. Every literal the analyzer searches for or emits is ASCII.
\<close>

abbreviation nl :: char where
  "nl \<equiv> CHR 0x0A"

text \<open>\<^verbatim>\<open>s.find(sub)\<close>: the index of the first occurrence of \<open>sub\<close> in \<open>s\<close>.\<close>

fun str_find :: "string \<Rightarrow> string \<Rightarrow> nat option" where
  "str_find sub [] = (if sub = [] then Some 0 else None)"
| "str_find sub (c # cs) =
     (if prefix sub (c # cs) then Some 0 else map_option Suc (str_find sub cs))"

text \<open>\<^verbatim>\<open>sub in s\<close>.\<close>

definition contains :: "string \<Rightarrow> string \<Rightarrow> bool" where
  "contains sub s = (str_find sub s \<noteq> None)"

text \<open>
  \<^verbatim>\<open>s.split(sep)\<close> for a non-empty separator: the pieces between successive
  non-overlapping occurrences of \<open>sep\<close>, found left to right. (Python raises ValueError
  for an empty separator; the analyzer only splits on non-empty literals, and the
  model returns the string unsplit there.)
\<close>

function split_str :: "string \<Rightarrow> string \<Rightarrow> string list" where
  "split_str sep s =
     (case str_find sep s of
        None \<Rightarrow> [s]
      | Some i \<Rightarrow> if sep = [] then [s]
                  else take i s # split_str sep (drop (i + length sep) s))"
  by pat_completeness auto

lemma str_find_le: "str_find sub s = Some i \<Longrightarrow> i + length sub \<le> length s"
proof (induction s arbitrary: i)
  case Nil
  then show ?case by (simp split: if_splits)
next
  case (Cons c cs)
  show ?case
  proof (cases "prefix sub (c # cs)")
    case True
    with Cons.prems have "i = 0" by simp
    with prefix_length_le [OF True] show ?thesis by simp
  next
    case False
    with Cons.prems obtain j where "str_find sub cs = Some j" "i = Suc j" by auto
    with Cons.IH show ?thesis by simp
  qed
qed

termination split_str
proof (relation "measure (\<lambda>(sep, s). length s)")
  show "wf (measure (\<lambda>(sep, s). length s))" by simp
next
  fix sep s :: string and i
  assume "str_find sep s = Some i" "sep \<noteq> []"
  then have "i + length sep \<le> length s" "0 < length sep"
    by (simp_all add: str_find_le)
  then have "length s - (i + length sep) < length s"
    by arith
  then show "((sep, drop (i + length sep) s), (sep, s)) \<in> measure (\<lambda>(sep, s). length s)"
    by simp
qed

declare split_str.simps [simp del]

text \<open>\<^verbatim>\<open>sep.join(items)\<close>.\<close>

fun join_str :: "string \<Rightarrow> string list \<Rightarrow> string" where
  "join_str sep [] = []"
| "join_str sep [x] = x"
| "join_str sep (x # y # ys) = x @ sep @ join_str sep (y # ys)"

text \<open>
  \<^verbatim>\<open>s.lower()\<close> on the letters A to Z; other characters are left as they are.
\<close>

definition lower_char :: "char \<Rightarrow> char" where
  "lower_char c =
     (if (65::nat) \<le> of_char c \<and> (of_char c :: nat) \<le> 90
      then char_of ((of_char c :: nat) + 32) else c)"

definition lower :: "string \<Rightarrow> string" where
  "lower s = map lower_char s"

text \<open>\<^verbatim>\<open>any(word in s for word in words)\<close>.\<close>

definition any_in :: "string list \<Rightarrow> string \<Rightarrow> bool" where
  "any_in words s = list_ex (\<lambda>word. contains word s) words"

section \<open>The project directory\<close>

text \<open>
  A directory has a name, its regular files (name and content) and its
  subdirectories, each in the order the operating system lists them.
\<close>

datatype dir = Dir (dname: string) (dfiles: "(string \<times> string) list") (dsubs: "dir list")

text \<open>\<^verbatim>\<open>(self.project_path / file).exists()\<close>: any entry of that name at the root.\<close>

definition root_exists :: "dir \<Rightarrow> string \<Rightarrow> bool" where
  "root_exists root f = (f \<in> set (map fst (dfiles root) @ map dname (dsubs root)))"

section \<open>Marker detection\<close>

definition indicators :: "(string \<times> string list) list" where
  "indicators =
     [(''python'', [''requirements.txt'', ''setup.py'', ''pyproject.toml'', ''Pipfile'']),
      (''javascript'', [''package.json'', ''yarn.lock'', ''npm-shrinkwrap.json'']),
      (''typescript'', [''tsconfig.json'', ''package.json'']),
      (''rust'', [''Cargo.toml'']),
      (''go'', [''go.mod'', ''go.sum'']),
      (''java'', [''pom.xml'', ''build.gradle'', ''build.gradle.kts'']),
      (''docker'', [''Dockerfile'', ''docker-compose.yml'', ''docker-compose.yaml''])]"

text \<open>
  The inner loop appends the tag at the first existing marker file and breaks, so a
  tag is appended once when any of its files exists.
\<close>

definition detect_project_type :: "dir \<Rightarrow> string list" where
  "detect_project_type root =
     (let detected = map fst (filter (\<lambda>(proj_type, files). list_ex (root_exists root) files) indicators)
      in if detected \<noteq> [] then detected else [''unknown''])"

section \<open>Repository inspection\<close>

text \<open>An exception, with the text \<^verbatim>\<open>str(e)\<close> gives.\<close>

datatype exn = Exception (message: string)

text \<open>What \<^verbatim>\<open>subprocess.run(..., capture_output=True, text=True)\<close> returns.\<close>

datatype completed = Completed (returncode: int) (stdout: string)

text \<open>
  The external tool: \<^verbatim>\<open>subprocess.run\<close> on an argument list either raises (tool
  not installed, unreadable working directory) or completes with an exit status and
  its standard output.
\<close>

type_synonym runner = "string list \<Rightarrow> exn + completed"

text \<open>Characters for which \<^verbatim>\<open>str.isspace\<close> holds, among the first 256 code points.\<close>

definition is_space :: "char \<Rightarrow> bool" where
  "is_space c = ((of_char c :: nat) \<in> set [9, 10, 11, 12, 13, 28, 29, 30, 31, 32, 133, 160])"

text \<open>\<^verbatim>\<open>s.strip()\<close>.\<close>

definition strip :: "string \<Rightarrow> string" where
  "strip s = rev (dropWhile is_space (rev (dropWhile is_space s)))"

text \<open>
  The dictionary \<^verbatim>\<open>analyze_git_status\<close> returns has one of three shapes:
  \<^verbatim>\<open>{"is_git_repo": False}\<close>, \<^verbatim>\<open>{"is_git_repo": False, "error": ...}\<close>, or the
  full record of a repository.
\<close>

datatype git_info =
    NotRepo
  | RepoError string
  | Repo (current_branch: string) (has_changes: bool) (change_count: nat)
      (recent_commits: "string list")

definition is_git_repo :: "git_info \<Rightarrow> bool" where
  "is_git_repo g = (case g of Repo b h c r \<Rightarrow> True | _ \<Rightarrow> False)"

definition cmd_probe :: "string list" where
  "cmd_probe = [''git'', ''rev-parse'', ''--git-dir'']"

definition cmd_branch :: "string list" where
  "cmd_branch = [''git'', ''branch'', ''--show-current'']"

definition cmd_status :: "string list" where
  "cmd_status = [''git'', ''status'', ''--porcelain'']"

definition cmd_log :: "string list" where
  "cmd_log = [''git'', ''log'', ''--oneline'', ''-5'']"

text \<open>
  The body of the \<^verbatim>\<open>try\<close> block: the result or the exception raised, together with
  the commands invoked, in order.
\<close>

definition git_try_body :: "runner \<Rightarrow> (exn + git_info) \<times> string list list" where
  "git_try_body run =
     (case run cmd_probe of
        Inl e \<Rightarrow> (Inl e, [cmd_probe])
      | Inr result \<Rightarrow>
          if returncode result \<noteq> 0 then (Inr NotRepo, [cmd_probe])
          else
            (case run cmd_branch of
               Inl e \<Rightarrow> (Inl e, [cmd_probe, cmd_branch])
             | Inr rb \<Rightarrow>
                 (case run cmd_status of
                    Inl e \<Rightarrow> (Inl e, [cmd_probe, cmd_branch, cmd_status])
                  | Inr rs \<Rightarrow>
                      (case run cmd_log of
                         Inl e \<Rightarrow> (Inl e, [cmd_probe, cmd_branch, cmd_status, cmd_log])
                       | Inr rl \<Rightarrow>
                           (let branch = strip (stdout rb);
                                status = strip (stdout rs);
                                commits = strip (stdout rl)
                            in (Inr (Repo branch (status \<noteq> [])
                                      (if status \<noteq> [] then length (split_str [nl] status) else 0)
                                      (if commits \<noteq> [] then split_str [nl] commits else [])),
                                [cmd_probe, cmd_branch, cmd_status, cmd_log]))))))"

text \<open>
  \<^verbatim>\<open>analyze_git_status\<close>: \<open>Inl\<close> would be an exception leaving the function;
  \<^verbatim>\<open>except Exception as e\<close> turns every exception of the body into a result.
\<close>

definition analyze_git_status :: "runner \<Rightarrow> (exn + git_info) \<times> string list list" where
  "analyze_git_status run =
     (case git_try_body run of
        (Inl e, trace) \<Rightarrow> (Inr (RepoError (message e)), trace)
      | (Inr g, trace) \<Rightarrow> (Inr g, trace))"

section \<open>Tooling detection\<close>

record tools =
  build :: "string list"
  test :: "string list"
  lint :: "string list"
  format :: "string list"

text \<open>The body of the loop over \<^verbatim>\<open>scripts.items()\<close>, for one script name.\<close>

definition add_script :: "tools \<Rightarrow> string \<Rightarrow> tools" where
  "add_script t script_name =
     (if any_in [''build'', ''compile''] (lower script_name)
        then t\<lparr>build := build t @ [''npm run '' @ script_name]\<rparr>
      else if any_in [''test'', ''spec''] (lower script_name)
        then t\<lparr>test := test t @ [''npm run '' @ script_name]\<rparr>
      else if any_in [''lint'', ''check''] (lower script_name)
        then t\<lparr>lint := lint t @ [''npm run '' @ script_name]\<rparr>
      else if any_in [''format'', ''prettier''] (lower script_name)
        then t\<lparr>format := format t @ [''npm run '' @ script_name]\<rparr>
      else t)"

text \<open>
  What \<^verbatim>\<open>json.load(f)\<close> followed by \<^verbatim>\<open>data.get('scripts', {}).items()\<close> gives
  on the text of a manifest: a JSONDecodeError, another exception (the document or its
  script table is not an object), or the script names in document order. The JSON
  parser is a library of the language and is taken as a parameter.
\<close>

datatype json_outcome = JSONDecodeError | JSONRaises exn | Scripts "string list"

type_synonym json_loader = "string \<Rightarrow> json_outcome"

text \<open>Every name below a directory, files and directories alike, at any depth.\<close>

fun all_names :: "dir \<Rightarrow> string list" where
  "all_names (Dir n fs subs) = map fst fs @ concat (map (\<lambda>d. dname d # all_names d) subs)"

text \<open>
  \<^verbatim>\<open>any(f.name.startswith('test_') for f in self.project_path.glob('**/*.py'))\<close>.
\<close>

definition has_test_py :: "dir \<Rightarrow> bool" where
  "has_test_py root = list_ex (\<lambda>f. suffix ''.py'' f \<and> prefix ''test_'' f) (all_names root)"

definition empty_tools :: tools where
  "empty_tools = \<lparr>build = [], test = [], lint = [], format = []\<rparr>"

text \<open>The block that reads the manifest; anything but a JSONDecodeError propagates.\<close>

definition package_json_tools :: "json_loader \<Rightarrow> dir \<Rightarrow> string list \<Rightarrow> tools \<Rightarrow> exn + tools" where
  "package_json_tools load root project_types t =
     (if ''javascript'' \<in> set project_types \<or> ''typescript'' \<in> set project_types then
        if root_exists root ''package.json'' then
          (case map_of (dfiles root) ''package.json'' of
             None \<Rightarrow> Inl (Exception ''IsADirectoryError'')
           | Some text \<Rightarrow>
               (case load text of
                  JSONDecodeError \<Rightarrow> Inr t
                | JSONRaises e \<Rightarrow> Inl e
                | Scripts names \<Rightarrow> Inr (foldl add_script t names)))
        else Inr t
      else Inr t)"

definition python_tools :: "dir \<Rightarrow> string list \<Rightarrow> tools \<Rightarrow> tools" where
  "python_tools root project_types t =
     (if ''python'' \<in> set project_types then
        (let t1 = (if root_exists root ''setup.py''
                   then t\<lparr>build := build t @ [''python setup.py build'']\<rparr> else t);
             t2 = (if root_exists root ''pytest.ini'' \<or> has_test_py root
                   then t1\<lparr>test := test t1 @ [''pytest'']\<rparr> else t1);
             t3 = (if root_exists root ''.flake8''
                   then t2\<lparr>lint := lint t2 @ [''flake8'']\<rparr> else t2)
         in if root_exists root ''pyproject.toml''
            then t3\<lparr>format := format t3 @ [''black .'']\<rparr> else t3)
      else t)"

definition rust_tools :: "string list \<Rightarrow> tools \<Rightarrow> tools" where
  "rust_tools project_types t =
     (if ''rust'' \<in> set project_types then
        t\<lparr>build := build t @ [''cargo build''], test := test t @ [''cargo test''],
          format := format t @ [''cargo fmt''], lint := lint t @ [''cargo clippy'']\<rparr>
      else t)"

definition go_tools :: "string list \<Rightarrow> tools \<Rightarrow> tools" where
  "go_tools project_types t =
     (if ''go'' \<in> set project_types then
        t\<lparr>build := build t @ [''go build''], test := test t @ [''go test ./...''],
          format := format t @ [''go fmt ./...''], lint := lint t @ [''golangci-lint run'']\<rparr>
      else t)"

definition detect_build_tools :: "json_loader \<Rightarrow> dir \<Rightarrow> string list \<Rightarrow> exn + tools" where
  "detect_build_tools load root project_types =
     (case package_json_tools load root project_types empty_tools of
        Inl e \<Rightarrow> Inl e
      | Inr t \<Rightarrow> Inr (go_tools project_types (rust_tools project_types
                  (python_tools root project_types t))))"

section \<open>Tree scan\<close>

record "structure" =
  config_files :: "string list"
  source_dirs :: "string list"
  doc_files :: "string list"
  test_dirs :: "string list"
  total_files :: nat
  languages :: "(string \<times> nat) list"

text \<open>
  The fragment of regular expressions the configuration patterns use: a literal, or
  \<^verbatim>\<open>.*\<close> (any characters but a newline). Every pattern ends with \<^verbatim>\<open>$\<close>, which
  matches at the end of the name or before a final newline; \<^verbatim>\<open>re.match\<close> anchors
  the pattern at the start of the name.
\<close>

datatype re_item = Lit string | DotStar

fun re_match :: "re_item list \<Rightarrow> string \<Rightarrow> bool" where
  "re_match [] s = (s = [] \<or> s = [nl])"
| "re_match (Lit l # r) s = (prefix l s \<and> re_match r (drop (length l) s))"
| "re_match (DotStar # r) [] = re_match r []"
| "re_match (DotStar # r) (c # cs) = (re_match r (c # cs) \<or> (c \<noteq> nl \<and> re_match (DotStar # r) cs))"

definition config_patterns :: "re_item list list" where
  "config_patterns =
     [[DotStar, Lit ''.json''], [DotStar, Lit ''.yaml''], [DotStar, Lit ''.yml''],
      [DotStar, Lit ''.toml''], [DotStar, Lit ''.ini''], [DotStar, Lit ''.cfg''],
      [Lit ''Dockerfile''], [Lit ''Makefile''],
      [Lit ''requirements'', DotStar, Lit ''.txt''], [Lit ''package.json''], [Lit ''go.mod'']]"

definition source_extensions :: "(string \<times> string) list" where
  "source_extensions =
     [(''.py'', ''python''), (''.js'', ''javascript''), (''.ts'', ''typescript''),
      (''.rs'', ''rust''), (''.go'', ''go''), (''.java'', ''java''), (''.cpp'', ''cpp''),
      (''.c'', ''c''), (''.h'', ''c''), (''.hpp'', ''cpp'')]"

text \<open>\<^verbatim>\<open>name.rfind('.')\<close>.\<close>

fun rfind_char :: "char \<Rightarrow> string \<Rightarrow> nat option" where
  "rfind_char c [] = None"
| "rfind_char c (x # xs) =
     (case rfind_char c xs of
        Some i \<Rightarrow> Some (Suc i)
      | None \<Rightarrow> if x = c then Some 0 else None)"

text \<open>\<^verbatim>\<open>Path.suffix\<close> of a file name: from the last dot, unless it is first or last.\<close>

definition path_suffix :: "string \<Rightarrow> string" where
  "path_suffix name =
     (case rfind_char (CHR ''.'') name of
        None \<Rightarrow> []
      | Some i \<Rightarrow> if 0 < i \<and> i < length name - 1 then drop i name else [])"

text \<open>
  \<^verbatim>\<open>str\<close> of a path relative to the project root, given by its components.
\<close>

definition rel_str :: "string list \<Rightarrow> string" where
  "rel_str rel = (if rel = [] then ''.'' else join_str ''/'' rel)"

text \<open>
  \<^verbatim>\<open>languages[lang] = languages.get(lang, 0) + 1\<close> on a dictionary that keeps
  insertion order.
\<close>

fun bump :: "string \<Rightarrow> (string \<times> nat) list \<Rightarrow> (string \<times> nat) list" where
  "bump k [] = [(k, 1)]"
| "bump k ((k', n) # r) = (if k' = k then (k', n + 1) # r else (k', n) # bump k r)"

definition excluded_dirs :: "string list" where
  "excluded_dirs = [''node_modules'', ''__pycache__'', ''target'']"

text \<open>The filter applied to \<^verbatim>\<open>dirs[:]\<close>.\<close>

definition keep_dir :: "string \<Rightarrow> bool" where
  "keep_dir d = (\<not> prefix ''.'' d \<and> d \<notin> set excluded_dirs)"

text \<open>
  \<^verbatim>\<open>os.walk\<close>, top down, with the pruning of \<^verbatim>\<open>dirs\<close> done by the loop body:
  each visited directory as (path relative to the root, name, names of its files),
  a directory before its kept subdirectories, these in listing order.
\<close>

fun walk :: "string list \<Rightarrow> dir \<Rightarrow> (string list \<times> string \<times> string list) list" where
  "walk rel (Dir name fs subs) =
     (rel, name, map fst fs) #
     concat (map (\<lambda>d. walk (rel @ [dname d]) d) (filter (\<lambda>d. keep_dir (dname d)) subs))"

text \<open>The body of the loop over \<^verbatim>\<open>files\<close>.\<close>

definition visit_file :: "string list \<Rightarrow> structure \<Rightarrow> string \<Rightarrow> structure" where
  "visit_file rel s file =
     (let rel_file_path = rel_str (rel @ [file]);
          s1 = s\<lparr>total_files := total_files s + 1\<rparr>;
          s2 = (if list_ex (\<lambda>pattern. re_match pattern file) config_patterns
                then s1\<lparr>config_files := config_files s1 @ [rel_file_path]\<rparr> else s1);
          s3 = (if any_in [''readme'', ''doc'', ''changelog''] (lower file)
                then s2\<lparr>doc_files := doc_files s2 @ [rel_file_path]\<rparr> else s2)
      in case map_of source_extensions (lower (path_suffix file)) of
           None \<Rightarrow> s3
         | Some lang \<Rightarrow> s3\<lparr>languages := bump lang (languages s3)\<rparr>)"

text \<open>The body of the loop over the walk, for one visited directory.\<close>

definition visit_dir :: "structure \<Rightarrow> string list \<times> string \<times> string list \<Rightarrow> structure" where
  "visit_dir s v =
     (case v of (rel, name, files) \<Rightarrow>
        (let s1 = (if any_in [''test'', ''tests'', ''spec''] (lower name)
                   then s\<lparr>test_dirs := test_dirs s @ [rel_str rel]\<rparr>
                   else if any_in [''src'', ''lib'', ''app''] (lower name)
                   then s\<lparr>source_dirs := source_dirs s @ [rel_str rel]\<rparr>
                   else s)
         in foldl (visit_file rel) s1 files))"

definition empty_structure :: "structure" where
  "empty_structure =
     \<lparr>config_files = [], source_dirs = [], doc_files = [], test_dirs = [],
      total_files = 0, languages = []\<rparr>"

definition scan_project_structure :: "dir \<Rightarrow> structure" where
  "scan_project_structure root = foldl visit_dir empty_structure (walk [] root)"

section \<open>Rendering\<close>

text \<open>\<^verbatim>\<open>str(n)\<close> for a non-negative integer.\<close>

definition digit_char :: "nat \<Rightarrow> char" where
  "digit_char n = char_of (48 + n)"

function str_of_nat :: "nat \<Rightarrow> string" where
  "str_of_nat n = (if n < 10 then [digit_char n] else str_of_nat (n div 10) @ [digit_char (n mod 10)])"
  by pat_completeness auto
termination
  by (relation "measure (\<lambda>n. n)") auto

declare str_of_nat.simps [simp del]

text \<open>
  The current time as \<^verbatim>\<open>datetime.now()\<close> returns it, and the two formats the
  analyzer prints it in: \<^verbatim>\<open>%Y-%m-%d %H:%M:%S\<close> and \<^verbatim>\<open>%Y-%m-%d\<close>, each field
  in decimal, padded with zeros to its width.
\<close>

record datetime =
  year :: nat
  month :: nat
  day :: nat
  hour :: nat
  minute :: nat
  second :: nat

definition pad :: "nat \<Rightarrow> nat \<Rightarrow> string" where
  "pad width n = (let s = str_of_nat n in replicate (width - length s) (CHR ''0'') @ s)"

definition fmt_date :: "datetime \<Rightarrow> string" where
  "fmt_date t = pad 4 (year t) @ ''-'' @ pad 2 (month t) @ ''-'' @ pad 2 (day t)"

definition fmt_timestamp :: "datetime \<Rightarrow> string" where
  "fmt_timestamp t =
     fmt_date t @ '' '' @ pad 2 (hour t) @ '':'' @ pad 2 (minute t) @ '':'' @ pad 2 (second t)"

text \<open>\<^verbatim>\<open>_format_list\<close>.\<close>

definition format_list :: "string list \<Rightarrow> string \<Rightarrow> string" where
  "format_list items empty_message =
     (if items = [] then ''- '' @ empty_message
      else join_str [nl] (map (\<lambda>item. ''- `'' @ item @ ''`'') items))"

text \<open>
  \<^verbatim>\<open>max(d, key=d.get)\<close> on a non-empty dictionary: the first key, in insertion
  order, whose count no other key exceeds.
\<close>

fun max_from :: "string \<times> nat \<Rightarrow> (string \<times> nat) list \<Rightarrow> string" where
  "max_from (k, v) [] = k"
| "max_from (k, v) ((k', v') # r) = (if v < v' then max_from (k', v') r else max_from (k, v) r)"

definition max_key :: "(string \<times> nat) list \<Rightarrow> string" where
  "max_key d = (case d of [] \<Rightarrow> [] | p # r \<Rightarrow> max_from p r)"

text \<open>The primary language, as \<^verbatim>\<open>_generate_project_overview\<close> selects it.\<close>

definition primary_lang :: "string list \<Rightarrow> structure \<Rightarrow> string" where
  "primary_lang project_types s =
     (if languages s \<noteq> [] then max_key (languages s)
      else if project_types \<noteq> [] then hd project_types else ''unknown'')"

text \<open>The text of the given template lines, each ended by a newline.\<close>

definition text_lines :: "string list \<Rightarrow> string" where
  "text_lines ls = concat (map (\<lambda>l. l @ [nl]) ls)"

definition yes_no :: "bool \<Rightarrow> string" where
  "yes_no b = (if b then ''Yes'' else ''No'')"

text \<open>
  The three pieces of the overview: from the title to the first timestamp; from
  there to the timestamp of the footer; and the end of the footer.
\<close>

definition overview_head :: string where
  "overview_head = text_lines [''# Project Overview'', []] @ ''**Generated:** ''"

definition overview_git :: "git_info \<Rightarrow> string" where
  "overview_git g =
     (case g of
        Repo branch changes n commits \<Rightarrow>
          text_lines
            [''- **Current Branch:** '' @ branch,
             ''- **Has Uncommitted Changes:** '' @ yes_no changes,
             ''- **Change Count:** '' @ str_of_nat n,
             [],
             ''### Recent Commits'',
             format_list commits ''No recent commits'']
      | _ \<Rightarrow> [])"

definition overview_body :: "string \<Rightarrow> string list \<Rightarrow> git_info \<Rightarrow> tools \<Rightarrow> structure \<Rightarrow> string" where
  "overview_body project_path project_types g t s =
     text_lines
       [''  '',
        ''**Project Path:** '' @ project_path @ ''  '',
        ''**Analysis Version:** 1.0  '',
        [],
        ''## Project Summary'',
        ''This appears to be a '' @ join_str '', '' project_types @ '' project with ''
          @ str_of_nat (total_files s) @ '' files.'',
        [],
        ''## Technology Stack'',
        ''- **Primary Language:** '' @ primary_lang project_types s,
        ''- **Project Types:** '' @ join_str '', '' project_types,
        ''- **Languages Detected:** ''
          @ join_str '', '' (map (\<lambda>(lang, count). lang @ '' ('' @ str_of_nat count @ '' files)'')
                              (languages s)),
        [],
        ''## Project Structure'',
        ''```'',
        ''Total Files: '' @ str_of_nat (total_files s),
        ''Source Directories: '' @ str_of_nat (length (source_dirs s)),
        ''Test Directories: '' @ str_of_nat (length (test_dirs s)),
        ''Config Files: '' @ str_of_nat (length (config_files s)),
        ''Documentation Files: '' @ str_of_nat (length (doc_files s)),
        ''```'',
        [],
        ''### Key Directories'',
        format_list (source_dirs s) ''No source directories identified'',
        [],
        ''### Configuration Files'',
        format_list (take 10 (config_files s)) ''No configuration files found'',
        [],
        ''### Documentation'',
        format_list (doc_files s) ''No documentation files found'',
        [],
        ''## Development Environment'',
        ''### Build Commands'',
        format_list (build t) ''No build commands detected'',
        [],
        ''### Test Commands  '',
        format_list (test t) ''No test commands detected'',
        [],
        ''### Linting Commands'',
        format_list (lint t) ''No linting commands detected'',
        [],
        ''### Formatting Commands'',
        format_list (format t) ''No formatting commands detected'',
        [],
        ''## Git Repository Status'',
        ''- **Is Git Repo:** '' @ yes_no (is_git_repo g)]
     @ overview_git g
     @ text_lines
       [[],
        ''## Next Steps'',
        ''1. Review and understand the project's main purpose'',
        ''2. Identify any immediate development tasks'',
        ''3. Set up development environment if needed'',
        ''4. Review existing documentation and code patterns'',
        [],
        ''## Questions for User'',
        ''1. What is the primary goal or purpose of this project?'',
        ''2. Are there any specific tasks or features you'd like to work on?'',
        ''3. Are there any particular coding standards or patterns to follow?'',
        ''4. Do you need help setting up the development environment?'',
        [],
        ''---'']
     @ ''*This analysis was generated automatically on ''"

definition overview_tail :: string where
  "overview_tail = text_lines [''*'']"

text \<open>
  \<^verbatim>\<open>_generate_project_overview\<close>; \<open>now\<close> is the time it reads once, at its start.
\<close>

definition generate_project_overview ::
  "datetime \<Rightarrow> string \<Rightarrow> string list \<Rightarrow> git_info \<Rightarrow> tools \<Rightarrow> structure \<Rightarrow> string" where
  "generate_project_overview now project_path project_types g t s =
     (let timestamp = fmt_timestamp now
      in overview_head @ timestamp @ overview_body project_path project_types g t s
         @ timestamp @ overview_tail)"

section \<open>Task tracker\<close>

definition last_updated :: string where
  "last_updated = ''**Last Updated:**''"

text \<open>
  \<^verbatim>\<open>re.sub(r'\*\*Last Updated:\*\*.*', repl, s)\<close> with no count: scanning left to
  right, every occurrence of the literal together with the rest of its line (the dot
  matches anything but a newline) is replaced, and the scan goes on after the match.
  The replacement the analyzer passes holds no backslash, so it is inserted as it is.
\<close>

function re_sub_last_updated :: "string \<Rightarrow> string \<Rightarrow> string" where
  "re_sub_last_updated repl [] = []"
| "re_sub_last_updated repl (c # cs) =
     (if prefix last_updated (c # cs)
      then repl @ re_sub_last_updated repl
                    (dropWhile (\<lambda>x. x \<noteq> nl) (drop (length last_updated) (c # cs)))
      else c # re_sub_last_updated repl cs)"
  by pat_completeness auto
termination
proof (relation "measure (\<lambda>(repl, s). length s)")
  show "wf (measure (\<lambda>(repl, s). length s))" by simp
next
  fix repl :: string and c cs
  have "length (dropWhile (\<lambda>x. x \<noteq> nl) (drop (length last_updated) (c # cs)))
          \<le> length (drop (length last_updated) (c # cs))"
    by (rule length_dropWhile_le)
  also have "\<dots> < length (c # cs)"
    by (simp add: last_updated_def)
  finally show "((repl, dropWhile (\<lambda>x. x \<noteq> nl) (drop (length last_updated) (c # cs))), (repl, c # cs))
                  \<in> measure (\<lambda>(repl, s). length s)"
    by simp
next
  fix repl :: string and c cs
  show "((repl, cs), (repl, c # cs)) \<in> measure (\<lambda>(repl, s). length s)"
    by simp
qed

declare re_sub_last_updated.simps(2) [simp del]

definition pending_heading :: string where
  "pending_heading = ''## Pending Tasks''"

definition doc_suggestion :: string where
  "doc_suggestion = ''Consider creating project documentation''"

definition test_suggestion :: string where
  "test_suggestion = ''Consider adding test coverage''"

text \<open>
  The loop over \<^verbatim>\<open>enumerate(lines)\<close>: insert the new line after the first line
  that contains the heading, then stop.
\<close>

fun insert_after_heading :: "string \<Rightarrow> string list \<Rightarrow> string list" where
  "insert_after_heading new [] = []"
| "insert_after_heading new (line # lines) =
     (if contains pending_heading line then line # new # lines
      else line # insert_after_heading new lines)"

text \<open>The branch of \<^verbatim>\<open>_generate_initial_tasks\<close> taken when the file exists.\<close>

definition update_task_tracker :: "datetime \<Rightarrow> structure \<Rightarrow> string \<Rightarrow> string" where
  "update_task_tracker now s existing_content =
     (let timestamp = fmt_timestamp now;
          updated = re_sub_last_updated (''**Last Updated:** '' @ timestamp) existing_content;
          updated1 =
            (if doc_files s = [] \<and> \<not> contains doc_suggestion existing_content
             then join_str [nl]
                    (insert_after_heading
                       ''- [ ] Consider creating project documentation (auto-suggested)''
                       (split_str [nl] updated))
             else updated)
      in if languages s \<noteq> [] \<and> test_dirs s = [] \<and> \<not> contains test_suggestion existing_content
         then join_str [nl]
                (insert_after_heading ''- [ ] Consider adding test coverage (auto-suggested)''
                   (split_str [nl] updated1))
         else updated1)"

text \<open>\<^verbatim>\<open>str(path / name)\<close> for an absolute, resolved path.\<close>

definition path_join :: "string \<Rightarrow> string \<Rightarrow> string" where
  "path_join p name = (if p = ''/'' then p @ name else p @ ''/'' @ name)"

text \<open>
  The branch taken when the file does not exist; the time is read once for the
  timestamp and once for each row of the history table.
\<close>

definition new_task_tracker ::
  "datetime \<Rightarrow> datetime \<Rightarrow> datetime \<Rightarrow> string \<Rightarrow> structure \<Rightarrow> string" where
  "new_task_tracker now row1 row2 project_path s =
     (let tasks =
            [''Complete project analysis and understand codebase'',
             ''Review existing documentation and README files'',
             ''Understand project goals and requirements'']
            @ (if doc_files s = [] then [doc_suggestion] else [])
            @ (if languages s \<noteq> [] \<and> test_dirs s = [] then [test_suggestion] else [])
      in text_lines
           [''# Task Tracker'',
            [],
            ''**Last Updated:** '' @ fmt_timestamp now,
            [],
            ''## Pending Tasks'',
            join_str [nl] (map (\<lambda>task. ''- [ ] '' @ task) tasks),
            [],
            ''## Completed Tasks'',
            ''- [x] Initialize Claude workflow automation'',
            ''- [x] Complete automated project analysis'',
            [],
            ''## Task History'',
            ''| Date | Task | Status | Notes |'',
            ''|------|------|--------|-------|'',
            ''| '' @ fmt_date row1 @ '' | Initialize workflow | Completed | Auto-setup complete |'',
            ''| '' @ fmt_date row2 @ '' | Project analysis | Completed | Automated analysis complete |'',
            [],
            ''## Resources & Links'',
            ''- Project Root: '' @ project_path,
            ''- Claude Directory: '' @ path_join project_path ''.claude'',
            ''- Context Directory: '' @ path_join (path_join project_path ''.claude'') ''context''])"

section \<open>Files\<close>

datatype entry = File string | Directory

text \<open>The directory a path of names leads to, from the project root.\<close>

fun lookup_dir :: "string list \<Rightarrow> dir \<Rightarrow> dir option" where
  "lookup_dir [] d = Some d"
| "lookup_dir (n # ns) d =
     (case find (\<lambda>sub. dname sub = n) (dsubs d) of
        None \<Rightarrow> None
      | Some sub \<Rightarrow> lookup_dir ns sub)"

definition entry_in :: "dir \<Rightarrow> string \<Rightarrow> entry option" where
  "entry_in d name =
     (case map_of (dfiles d) name of
        Some text \<Rightarrow> Some (File text)
      | None \<Rightarrow> if name \<in> set (map dname (dsubs d)) then Some Directory else None)"

text \<open>What a path names: nothing, a file with its content, or a directory.\<close>

definition entry_at :: "string list \<Rightarrow> string \<Rightarrow> dir \<Rightarrow> entry option" where
  "entry_at path name root =
     (case lookup_dir path root of None \<Rightarrow> None | Some d \<Rightarrow> entry_in d name)"

fun set_file :: "string \<Rightarrow> string \<Rightarrow> (string \<times> string) list \<Rightarrow> (string \<times> string) list" where
  "set_file name text [] = [(name, text)]"
| "set_file name text ((name', text') # r) =
     (if name' = name then (name, text) # r else (name', text') # set_file name text r)"

definition put_file :: "string \<Rightarrow> string \<Rightarrow> dir \<Rightarrow> dir" where
  "put_file name text d = Dir (dname d) (set_file name text (dfiles d)) (dsubs d)"

definition mkdir :: "string \<Rightarrow> dir \<Rightarrow> dir" where
  "mkdir name d = Dir (dname d) (dfiles d) (dsubs d @ [Dir name [] []])"

text \<open>Apply a change to the directory a path leads to.\<close>

fun upd_dir :: "string list \<Rightarrow> (dir \<Rightarrow> dir) \<Rightarrow> dir \<Rightarrow> dir"
  and upd_subs :: "string \<Rightarrow> string list \<Rightarrow> (dir \<Rightarrow> dir) \<Rightarrow> dir list \<Rightarrow> dir list" where
  "upd_dir [] f d = f d"
| "upd_dir (n # ns) f d = Dir (dname d) (dfiles d) (upd_subs n ns f (dsubs d))"
| "upd_subs n ns f [] = []"
| "upd_subs n ns f (sub # subs) =
     (if dname sub = n then upd_dir ns f sub # subs else sub # upd_subs n ns f subs)"

text \<open>
  A file holds its text as it is stored. Reading it in text mode,
  \<^verbatim>\<open>open(path, 'r').read()\<close>, translates line endings: a carriage return followed
  by a newline, and a carriage return alone, are read as one newline.
\<close>

abbreviation cr :: char where
  "cr \<equiv> CHR 0x0D"

fun universal_newlines :: "string \<Rightarrow> string" where
  "universal_newlines [] = []"
| "universal_newlines [c] = (if c = cr then [nl] else [c])"
| "universal_newlines (c # d # cs) =
     (if c = cr then
        (if d = nl then nl # universal_newlines cs else nl # universal_newlines (d # cs))
      else c # universal_newlines (d # cs))"

text \<open>The stored text of a file, as a copy of the file takes it.\<close>

definition read_bytes :: "string list \<Rightarrow> string \<Rightarrow> dir \<Rightarrow> exn + string" where
  "read_bytes path name root =
     (case entry_at path name root of
        Some (File text) \<Rightarrow> Inr text
      | Some Directory \<Rightarrow> Inl (Exception ''IsADirectoryError'')
      | None \<Rightarrow> Inl (Exception ''FileNotFoundError''))"

text \<open>\<^verbatim>\<open>open(path, 'r').read()\<close>.\<close>

definition read_file :: "string list \<Rightarrow> string \<Rightarrow> dir \<Rightarrow> exn + string" where
  "read_file path name root =
     (case read_bytes path name root of
        Inl e \<Rightarrow> Inl e
      | Inr text \<Rightarrow> Inr (universal_newlines text))"

text \<open>
  \<^verbatim>\<open>open(path, 'w').write(text)\<close>, on a system whose line separator is the
  newline, where writing in text mode stores the text as it is.
\<close>

definition write_file :: "string list \<Rightarrow> string \<Rightarrow> string \<Rightarrow> dir \<Rightarrow> exn + dir" where
  "write_file path name text root =
     (case lookup_dir path root of
        None \<Rightarrow> Inl (Exception ''FileNotFoundError'')
      | Some d \<Rightarrow>
          (case entry_in d name of
             Some Directory \<Rightarrow> Inl (Exception ''IsADirectoryError'')
           | _ \<Rightarrow> Inr (upd_dir path (put_file name text) root)))"

text \<open>
  \<^verbatim>\<open>shutil.copy(src, dst)\<close> within one directory, which copies the stored text
  untranslated: when \<open>dst\<close> is a directory the copy goes into it, under the name of
  the source.
\<close>

definition copy_file :: "string list \<Rightarrow> string \<Rightarrow> string \<Rightarrow> dir \<Rightarrow> exn + dir" where
  "copy_file path src dst root =
     (case read_bytes path src root of
        Inl e \<Rightarrow> Inl e
      | Inr text \<Rightarrow>
          (case entry_at path dst root of
             Some Directory \<Rightarrow> write_file (path @ [dst]) src text root
           | _ \<Rightarrow> write_file path dst text root))"

definition context_dir :: "string list" where
  "context_dir = [''.claude'', ''context'']"

text \<open>
  The constructor: create \<^verbatim>\<open>.claude\<close> unless something of that name exists, then
  \<^verbatim>\<open>.claude/context\<close> with \<^verbatim>\<open>mkdir(parents=True, exist_ok=True)\<close>.
\<close>

definition init_analyzer :: "dir \<Rightarrow> exn + dir" where
  "init_analyzer root =
     (let r1 = (if root_exists root ''.claude'' then root else mkdir ''.claude'' root)
      in case lookup_dir [''.claude''] r1 of
           None \<Rightarrow> Inl (Exception ''NotADirectoryError'')
         | Some c \<Rightarrow>
             (case entry_in c ''context'' of
                Some (File text) \<Rightarrow> Inl (Exception ''FileExistsError'')
              | Some Directory \<Rightarrow> Inr r1
              | None \<Rightarrow> Inr (upd_dir [''.claude''] (mkdir ''context'') r1)))"

section \<open>The analysis run\<close>

text \<open>
  The collaborators outside the program: the version-control tool, whose answers
  depend on the state of the project directory, and the JSON parser.
\<close>

record env =
  git :: "dir \<Rightarrow> runner"
  load_json :: json_loader

text \<open>The readings of the clock during one run, in the order they are taken.\<close>

record clock =
  t_overview :: datetime
  t_tasks :: datetime
  t_row1 :: datetime
  t_row2 :: datetime

text \<open>The dictionary \<^verbatim>\<open>generate_analysis\<close> returns.\<close>

record analysis =
  project_types :: "string list"
  git_info :: git_info
  build_tools :: tools
  "structure" :: "structure"

definition custom_heading :: string where
  "custom_heading = ''## Custom Notes''"

text \<open>
  The merge of update mode: \<^verbatim>\<open>existing_content.split('## Custom Notes')[1].split('\n##')[0]\<close>
  appended to the new overview after a newline and the heading.
\<close>

definition merge_custom_notes :: "string \<Rightarrow> string \<Rightarrow> exn + string" where
  "merge_custom_notes existing_content new_overview =
     (if contains custom_heading existing_content then
        (case split_str custom_heading existing_content of
           before # after # rest \<Rightarrow>
             (case split_str (nl # ''##'') after of
                custom_section # rest' \<Rightarrow>
                  Inr (new_overview @ (nl # ''## Custom Notes'') @ custom_section)
              | [] \<Rightarrow> Inl (Exception ''IndexError''))
         | _ \<Rightarrow> Inl (Exception ''IndexError''))
      else Inr new_overview)"

definition overview_name :: string where
  "overview_name = ''project-overview.md''"

definition backup_name :: string where
  "backup_name = ''project-overview.md.bak''"

definition tracker_name :: string where
  "tracker_name = ''task-tracker.md''"

text \<open>The part of \<^verbatim>\<open>generate_analysis\<close> that writes the overview.\<close>

definition write_overview ::
  "bool \<Rightarrow> datetime \<Rightarrow> string \<Rightarrow> analysis \<Rightarrow> dir \<Rightarrow> exn + dir" where
  "write_overview update_mode now project_path a root =
     (if update_mode \<and> entry_at context_dir overview_name root \<noteq> None then
        (case copy_file context_dir overview_name backup_name root of
           Inl e \<Rightarrow> Inl e
         | Inr r1 \<Rightarrow>
             (case read_file context_dir overview_name r1 of
                Inl e \<Rightarrow> Inl e
              | Inr existing_content \<Rightarrow>
                  (case merge_custom_notes existing_content
                          (generate_project_overview now project_path (project_types a)
                             (git_info a) (build_tools a) (structure a)) of
                     Inl e \<Rightarrow> Inl e
                   | Inr new_overview \<Rightarrow> write_file context_dir overview_name new_overview r1)))
      else
        write_file context_dir overview_name
          (generate_project_overview now project_path (project_types a)
             (git_info a) (build_tools a) (structure a)) root)"

text \<open>\<^verbatim>\<open>_generate_initial_tasks\<close>.\<close>

definition generate_initial_tasks :: "clock \<Rightarrow> string \<Rightarrow> structure \<Rightarrow> dir \<Rightarrow> exn + dir" where
  "generate_initial_tasks clk project_path s root =
     (if entry_at context_dir tracker_name root \<noteq> None then
        (case read_file context_dir tracker_name root of
           Inl e \<Rightarrow> Inl e
         | Inr existing_content \<Rightarrow>
             write_file context_dir tracker_name
               (update_task_tracker (t_tasks clk) s existing_content) root)
      else
        write_file context_dir tracker_name
          (new_task_tracker (t_tasks clk) (t_row1 clk) (t_row2 clk) project_path s) root)"

text \<open>
  \<^verbatim>\<open>generate_analysis\<close>: the four analyses on the directory as it is found, then
  the two documents. \<open>Inl\<close> is an exception that leaves the function.
\<close>

definition generate_analysis ::
  "env \<Rightarrow> bool \<Rightarrow> clock \<Rightarrow> string \<Rightarrow> dir \<Rightarrow> exn + dir \<times> analysis" where
  "generate_analysis ev update_mode clk project_path root =
     (case fst (analyze_git_status (git ev root)) of
        Inl e \<Rightarrow> Inl e
      | Inr g \<Rightarrow>
          (case detect_build_tools (load_json ev) root (detect_project_type root) of
             Inl e \<Rightarrow> Inl e
           | Inr t \<Rightarrow>
               (let a = \<lparr>project_types = detect_project_type root, git_info = g,
                         build_tools = t, structure = scan_project_structure root\<rparr>
                in case write_overview update_mode (t_overview clk) project_path a root of
                     Inl e \<Rightarrow> Inl e
                   | Inr r1 \<Rightarrow>
                       (case generate_initial_tasks clk project_path (structure a) r1 of
                          Inl e \<Rightarrow> Inl e
                        | Inr r2 \<Rightarrow> Inr (r2, a)))))"

text \<open>One invocation of the tool: the constructor, then the analysis.\<close>

definition run_analyzer ::
  "env \<Rightarrow> bool \<Rightarrow> clock \<Rightarrow> string \<Rightarrow> dir \<Rightarrow> exn + dir \<times> analysis" where
  "run_analyzer ev update_mode clk project_path root =
     (case init_analyzer root of
        Inl e \<Rightarrow> Inl e
      | Inr r \<Rightarrow> generate_analysis ev update_mode clk project_path r)"

section \<open>Notions the properties are stated with\<close>

text \<open>An ecosystem tag has a marker in the root: one of the files of its table entry exists.\<close>

definition marker_present :: "dir \<Rightarrow> string \<Rightarrow> bool" where
  "marker_present root t =
     list_ex (\<lambda>(proj_type, files). proj_type = t \<and> list_ex (root_exists root) files) indicators"

text \<open>A small project, used where a property is shown at a concrete input.\<close>

definition example_go_project :: dir where
  "example_go_project = Dir ''proj'' [(''a.py'', []), (''b.go'', []), (''c.go'', [])] []"

text \<open>The non-empty lines of a text.\<close>

definition nonempty_lines :: "string \<Rightarrow> string list" where
  "nonempty_lines s = filter (\<lambda>line. line \<noteq> []) (split_str [nl] s)"

text \<open>Version-control tools, used where a property is shown at a concrete input.\<close>

definition git_missing :: runner where
  "git_missing argv = Inl (Exception ''[Errno 2] No such file or directory: git'')"

definition git_outside_repo :: runner where
  "git_outside_repo argv =
     (if argv = cmd_probe then Inr (Completed 128 []) else Inl (Exception ''not asked''))"

definition git_blank_lines :: runner where
  "git_blank_lines argv =
     (if argv = cmd_probe then Inr (Completed 0 ''.git\<newline>'')
      else if argv = cmd_branch then Inr (Completed 0 ''main\<newline>'')
      else if argv = cmd_status then Inr (Completed 0 '' M a\<newline>\<newline> M b\<newline>'')
      else Inr (Completed 0 ''abc one\<newline>\<newline>def two\<newline>''))"

definition git_clean_repo :: runner where
  "git_clean_repo argv =
     (if argv = cmd_probe then Inr (Completed 0 ''.git\<newline>'')
      else if argv = cmd_branch then Inr (Completed 0 ''main\<newline>'')
      else if argv = cmd_status then Inr (Completed 0 '' M a\<newline>?? b\<newline>'')
      else Inr (Completed 0 ''abc one\<newline>def two\<newline>''))"

text \<open>
  The category of a script name: case-insensitive substring match against the keyword
  lists, the first matching category winning.
\<close>

definition category :: "string \<Rightarrow> string option" where
  "category script_name =
     (if any_in [''build'', ''compile''] (lower script_name) then Some ''build''
      else if any_in [''test'', ''spec''] (lower script_name) then Some ''test''
      else if any_in [''lint'', ''check''] (lower script_name) then Some ''lint''
      else if any_in [''format'', ''prettier''] (lower script_name) then Some ''format''
      else None)"

text \<open>The list a category names in the tools dictionary.\<close>

definition tools_get :: "tools \<Rightarrow> string \<Rightarrow> string list" where
  "tools_get t c =
     (if c = ''build'' then build t else if c = ''test'' then test t
      else if c = ''lint'' then lint t else if c = ''format'' then format t else [])"

text \<open>A project with a manifest, and a parser that finds three scripts in it.\<close>

definition example_manifest_project :: dir where
  "example_manifest_project = Dir ''web'' [(''package.json'', ''{}'')] []"

definition example_loader :: json_loader where
  "example_loader text = Scripts [''build:prod'', ''test:unit'', ''release'']"

text \<open>
  A directory without the subdirectories the scan excludes, at every depth: those
  whose name starts with a dot or is in the exclusion list.
\<close>

fun prune :: "dir \<Rightarrow> dir" where
  "prune (Dir name fs subs) = Dir name fs (map prune (filter (\<lambda>d. keep_dir (dname d)) subs))"

text \<open>
  A project with vendored, hidden and build directories, and the same project
  without them.
\<close>

definition example_vendored_project :: dir where
  "example_vendored_project =
     Dir ''proj'' [(''main.py'', [])]
       [Dir ''node_modules'' [(''index.js'', []), (''package.json'', [])]
          [Dir ''tests'' [(''t.js'', [])] []],
        Dir ''.git'' [(''config.json'', []), (''README'', [])] [],
        Dir ''src'' [(''a.py'', [])] [Dir ''target'' [(''out.rs'', [])] [Dir ''lib'' [] []]]]"

definition example_bare_project :: dir where
  "example_bare_project =
     Dir ''proj'' [(''main.py'', [])] [Dir ''src'' [(''a.py'', [])] []]"

text \<open>
  What the timestamp replacement does to one line: the text from the first occurrence
  of the marker to the end of the line is replaced.
\<close>

definition sub_line :: "string \<Rightarrow> string \<Rightarrow> string" where
  "sub_line repl line =
     (case str_find last_updated line of None \<Rightarrow> line | Some i \<Rightarrow> take i line @ repl)"

text \<open>A replacement of the first match only, as \<^verbatim>\<open>count=1\<close> would give.\<close>

definition replace_first :: "string \<Rightarrow> string \<Rightarrow> string" where
  "replace_first repl s =
     (case str_find last_updated s of
        None \<Rightarrow> s
      | Some i \<Rightarrow> take i s @ repl @ dropWhile (\<lambda>x. x \<noteq> nl) (drop (i + length last_updated) s))"



text \<open>Two readings of the clock, an existing task tracker and a scan result.\<close>

definition example_time :: datetime where
  "example_time = \<lparr>year = 2024, month = 3, day = 9, hour = 7, minute = 5, second = 59\<rparr>"




text \<open>
  The next top-level heading of a text: the first newline followed by \<open>##\<close> and not
  by a third \<open>#\<close>.
\<close>

fun find_top_heading :: "string \<Rightarrow> nat option" where
  "find_top_heading [] = None"
| "find_top_heading (c # cs) =
     (if prefix (nl # ''##'') (c # cs) \<and> \<not> prefix (nl # ''###'') (c # cs) then Some 0
      else map_option Suc (find_top_heading cs))"

text \<open>The text after the first \<open>## Custom Notes\<close> heading of a document.\<close>

definition after_heading :: "string \<Rightarrow> string" where
  "after_heading existing_content =
     (case str_find custom_heading existing_content of
        None \<Rightarrow> []
      | Some i \<Rightarrow> drop (i + length custom_heading) existing_content)"

text \<open>
  The body of the custom-notes section: the text after the heading, up to the next
  top-level heading or to the end.
\<close>

definition section_body :: "string \<Rightarrow> string" where
  "section_body existing_content =
     (case find_top_heading (after_heading existing_content) of
        None \<Rightarrow> after_heading existing_content
      | Some j \<Rightarrow> take j (after_heading existing_content))"

text \<open>
  The custom-notes section of a document: from the first \<open>## Custom Notes\<close> heading
  to the next top-level heading, or to the end.
\<close>

definition notes_section :: "string \<Rightarrow> string" where
  "notes_section existing_content = custom_heading @ section_body existing_content"

text \<open>The text that follows the custom-notes section.\<close>

definition after_section :: "string \<Rightarrow> string" where
  "after_section existing_content =
     drop (length (section_body existing_content)) (after_heading existing_content)"

text \<open>A change to a directory that leaves its name as it is.\<close>

definition keeps_name :: "(dir \<Rightarrow> dir) \<Rightarrow> bool" where
  "keeps_name f = (\<forall>d. dname (f d) = dname d)"

text \<open>
  A project whose overview holds a custom-notes section, collaborators that find no
  repository and no manifest, and two clocks.
\<close>

definition example_notes_project :: dir where
  "example_notes_project =
     Dir ''proj'' [(''main.py'', [])]
       [Dir ''.claude'' []
          [Dir ''context''
             [(''project-overview.md'',
               ''# Project Overview'' @ [cr, nl] @ ''old text'' @ [cr, nl, cr, nl]
                 @ ''## Custom Notes'' @ [cr, nl] @ ''keep me'' @ [cr, nl, cr, nl]
                 @ ''## Next Steps'' @ [cr, nl] @ ''1. Review'' @ [cr, nl])]
             []]]"

definition example_env :: env where
  "example_env = \<lparr>git = (\<lambda>d. git_outside_repo), load_json = (\<lambda>content. JSONDecodeError)\<rparr>"

definition example_clock :: clock where
  "example_clock =
     \<lparr>t_overview = example_time, t_tasks = example_time, t_row1 = example_time,
      t_row2 = example_time\<rparr>"




text \<open>
  The state and the overview a run leaves, and a version-control tool whose status
  lists the metadata directory as untracked once it holds the overview, unless the
  directory is ignored.
\<close>

definition state_after :: "exn + dir \<times> analysis \<Rightarrow> dir" where
  "state_after res = (case res of Inr (r, a) \<Rightarrow> r | Inl e \<Rightarrow> Dir [] [] [])"

definition overview_after :: "exn + dir \<times> analysis \<Rightarrow> exn + string" where
  "overview_after res =
     (case res of Inr (r, a) \<Rightarrow> read_bytes context_dir overview_name r | Inl e \<Rightarrow> Inl e)"

definition git_untracked :: "bool \<Rightarrow> dir \<Rightarrow> runner" where
  "git_untracked ignored d argv =
     (if argv = cmd_probe then Inr (Completed 0 ''.git\<newline>'')
      else if argv = cmd_branch then Inr (Completed 0 ''main\<newline>'')
      else if argv = cmd_status then
        Inr (Completed 0 (if \<not> ignored \<and> entry_at context_dir overview_name d \<noteq> None
                          then ''?? .claude/\<newline>'' else []))
      else Inr (Completed 0 ''abc1234 init\<newline>''))"

definition example_repo_env :: env where
  "example_repo_env = \<lparr>git = git_untracked False, load_json = (\<lambda>content. JSONDecodeError)\<rparr>"

definition example_ignoring_env :: env where
  "example_ignoring_env = \<lparr>git = git_untracked True, load_json = (\<lambda>content. JSONDecodeError)\<rparr>"

definition example_repo :: dir where
  "example_repo = Dir ''proj'' [(''main.py'', [])] [Dir ''.git'' [(''HEAD'', [])] []]"

text \<open>The state the constructor leaves: the metadata directory with its context directory.\<close>

definition initialised :: "dir \<Rightarrow> bool" where
  "initialised r =
     (root_exists r ''.claude''
      \<and> (case lookup_dir [''.claude''] r of
           None \<Rightarrow> False
         | Some c \<Rightarrow> entry_in c ''context'' = Some Directory))"

section \<open>Properties of marker detection\<close>

lemma filter_keys_distinct:
  "distinct (map fst al) \<Longrightarrow>
   map fst (filter (\<lambda>(t, fs). P fs) al)
     = filter (\<lambda>t. list_ex (\<lambda>(t', fs). t' = t \<and> P fs) al) (map fst al)"
proof (induction al)
  case Nil
  then show ?case by simp
next
  case (Cons p al)
  obtain k v where p: "p = (k, v)" by (cases p)
  from Cons.prems p have notin: "k \<notin> fst ` set al" and dist: "distinct (map fst al)"
    by auto
  have same: "filter (\<lambda>t. list_ex (\<lambda>(t', fs). t' = t \<and> P fs) (p # al)) (map fst al)
                = filter (\<lambda>t. list_ex (\<lambda>(t', fs). t' = t \<and> P fs) al) (map fst al)"
  proof (rule filter_cong [OF refl])
    fix t assume "t \<in> set (map fst al)"
    with notin have "t \<noteq> k" by auto
    then show "list_ex (\<lambda>(t', fs). t' = t \<and> P fs) (p # al)
                 = list_ex (\<lambda>(t', fs). t' = t \<and> P fs) al"
      using p by simp
  qed
  have here: "list_ex (\<lambda>(t', fs). t' = k \<and> P fs) (p # al) = P v"
    using notin p by (force simp: list_ex_iff)
  have "map fst (filter (\<lambda>(t, fs). P fs) (p # al))
          = (if P v then [k] else []) @ map fst (filter (\<lambda>(t, fs). P fs) al)"
    using p by simp
  also have "\<dots> = (if P v then [k] else [])
                     @ filter (\<lambda>t. list_ex (\<lambda>(t', fs). t' = t \<and> P fs) (p # al)) (map fst al)"
    using Cons.IH [OF dist] same by simp
  also have "\<dots> = filter (\<lambda>t. list_ex (\<lambda>(t', fs). t' = t \<and> P fs) (p # al)) (map fst (p # al))"
    using here p by (simp del: list_ex_Cons_iff)
  finally show ?case .
qed

lemma distinct_tags: "distinct (map fst indicators)"
  by (simp add: indicators_def)

lemma detect_project_type_filter:
  "detect_project_type root =
     (let detected = filter (marker_present root) (map fst indicators)
      in if detected \<noteq> [] then detected else [''unknown''])"
  unfolding detect_project_type_def marker_present_def
  using filter_keys_distinct [OF distinct_tags, of "list_ex (root_exists root)"]
  by (simp add: Let_def)

lemma marker_present_tag: "marker_present root t \<Longrightarrow> t \<in> set (map fst indicators)"
  by (force simp: marker_present_def list_ex_iff)

lemma filter_eq_single:
  "distinct xs \<Longrightarrow> t \<in> set xs \<Longrightarrow> filter (\<lambda>x. x = t) xs = [t]"
  by (induction xs) (auto simp: filter_empty_conv)

text \<open>
  Claim C1. A root holding no marker file gives exactly \<open>[''unknown'']\<close>; a root where
  exactly one ecosystem has a marker gives the singleton list of its tag; a root
  where exactly two ecosystems have markers gives both tags, in the order of the
  indicators table (\<open>a\<close> is declared before \<open>b\<close>), whatever the order of the files in
  the directory listing.
\<close>

theorem detect_project_type_markers:
  "((\<forall>t. \<not> marker_present root t) \<longrightarrow> detect_project_type root = [''unknown''])
   \<and> ((\<forall>t'. marker_present root t' \<longleftrightarrow> t' = t) \<longrightarrow> detect_project_type root = [t])
   \<and> ((\<forall>t'. marker_present root t' \<longleftrightarrow> t' = a \<or> t' = b)
        \<and> map fst indicators = xs @ a # ys @ b # zs
        \<longrightarrow> detect_project_type root = [a, b])"
proof (intro conjI impI)
  assume "\<forall>t. \<not> marker_present root t"
  then show "detect_project_type root = [''unknown'']"
    by (simp add: detect_project_type_filter)
next
  assume one: "\<forall>t'. marker_present root t' \<longleftrightarrow> t' = t"
  then have "t \<in> set (map fst indicators)"
    using marker_present_tag by blast
  with distinct_tags have "filter (\<lambda>x. x = t) (map fst indicators) = [t]"
    by (rule filter_eq_single)
  moreover from one have "marker_present root = (\<lambda>x. x = t)" by auto
  ultimately show "detect_project_type root = [t]"
    by (simp add: detect_project_type_filter)
next
  assume two: "(\<forall>t'. marker_present root t' \<longleftrightarrow> t' = a \<or> t' = b)
                 \<and> map fst indicators = xs @ a # ys @ b # zs"
  then have tags: "map fst indicators = xs @ a # ys @ b # zs"
    and P: "marker_present root = (\<lambda>x. x = a \<or> x = b)" by auto
  from distinct_tags tags have d: "distinct (xs @ a # ys @ b # zs)" by simp
  then have "filter (\<lambda>x. x = a \<or> x = b) xs = []" "filter (\<lambda>x. x = a \<or> x = b) ys = []"
    "filter (\<lambda>x. x = a \<or> x = b) zs = []"
    by (auto simp: filter_empty_conv)
  then have "filter (\<lambda>x. x = a \<or> x = b) (xs @ a # ys @ b # zs) = [a, b]"
    by simp
  with tags P show "detect_project_type root = [a, b]"
    by (simp add: detect_project_type_filter)
qed

theorem detect_project_type_markers_witness:
  "detect_project_type (Dir ''proj'' [(''notes.txt'', [])] [Dir ''src'' [] []]) = [''unknown'']
   \<and> detect_project_type (Dir ''proj'' [(''Cargo.toml'', [])] []) = [''rust'']
   \<and> detect_project_type (Dir ''proj'' [(''go.mod'', []), (''Cargo.toml'', [])] []) = [''rust'', ''go'']"
proof (intro conjI)
  show "detect_project_type (Dir ''proj'' [(''notes.txt'', [])] [Dir ''src'' [] []]) = [''unknown'']"
    using detect_project_type_markers
      [of "Dir ''proj'' [(''notes.txt'', [])] [Dir ''src'' [] []]", THEN conjunct1]
    by (simp add: marker_present_def indicators_def root_exists_def)
  show "detect_project_type (Dir ''proj'' [(''Cargo.toml'', [])] []) = [''rust'']"
    using detect_project_type_markers
      [of "Dir ''proj'' [(''Cargo.toml'', [])] []" "''rust''", THEN conjunct2, THEN conjunct1]
    by (auto simp add: marker_present_def indicators_def root_exists_def)
  show "detect_project_type (Dir ''proj'' [(''go.mod'', []), (''Cargo.toml'', [])] []) = [''rust'', ''go'']"
    using detect_project_type_markers
      [of "Dir ''proj'' [(''go.mod'', []), (''Cargo.toml'', [])] []" _ "''rust''" "''go''"
          "[''python'', ''javascript'', ''typescript'']" "[]" "[''java'', ''docker'']",
       THEN conjunct2, THEN conjunct2]
    by (auto simp add: marker_present_def indicators_def root_exists_def)
qed

section \<open>Properties of the primary language\<close>

lemma detect_project_type_nonempty: "detect_project_type root \<noteq> []"
  by (simp add: detect_project_type_def Let_def)

lemma max_from_max:
  "\<exists>c. (max_from (k, v) r, c) \<in> set ((k, v) # r) \<and> (\<forall>(l, c') \<in> set ((k, v) # r). c' \<le> c)"
proof (induction "(k, v)" r arbitrary: k v rule: max_from.induct)
  case (1 k v)
  then show ?case by simp
next
  case (2 k v k' v' r)
  show ?case
  proof (cases "v < v'")
    case True
    with 2(1) obtain c where "(max_from (k', v') r, c) \<in> set ((k', v') # r)"
      "\<forall>(l, c') \<in> set ((k', v') # r). c' \<le> c" by blast
    with True show ?thesis by (intro exI [of _ c]) auto
  next
    case False
    with 2(2) obtain c where "(max_from (k, v) r, c) \<in> set ((k, v) # r)"
      "\<forall>(l, c') \<in> set ((k, v) # r). c' \<le> c" by blast
    with False show ?thesis by (intro exI [of _ c]) auto
  qed
qed

lemma max_key_max:
  "d \<noteq> [] \<Longrightarrow> \<exists>c. (max_key d, c) \<in> set d \<and> (\<forall>(l, c') \<in> set d. c' \<le> c)"
proof (cases d)
  case Nil
  then show "d \<noteq> [] \<Longrightarrow> ?thesis" by simp
next
  case (Cons p r)
  obtain k v where "p = (k, v)" by (cases p)
  with Cons max_from_max [of k v r] show ?thesis by (simp add: max_key_def)
qed

text \<open>
  Claim C10. \<open>detect_project_type\<close> never returns the empty list, so the last fallback
  of the primary-language selection is not taken: the primary language is the
  language of highest count when any language was counted (a key of the counts,
  whose count no other exceeds), and the first ecosystem tag otherwise.
\<close>

theorem primary_language_never_falls_back:
  "detect_project_type root \<noteq> []
   \<and> primary_lang (detect_project_type root) s
       = (if languages s \<noteq> [] then max_key (languages s) else hd (detect_project_type root))
   \<and> (languages s \<noteq> [] \<longrightarrow>
        (\<exists>c. (max_key (languages s), c) \<in> set (languages s)
             \<and> (\<forall>(l, c') \<in> set (languages s). c' \<le> c)))"
  using detect_project_type_nonempty [of root] max_key_max [of "languages s"]
  by (simp add: primary_lang_def)

theorem primary_language_never_falls_back_witness:
  "languages (scan_project_structure example_go_project) \<noteq> []
   \<and> primary_lang (detect_project_type example_go_project)
         (scan_project_structure example_go_project) = ''go''
   \<and> (''go'', 2) \<in> set (languages (scan_project_structure example_go_project))"
proof -
  have a: "languages (scan_project_structure example_go_project) \<noteq> []"
    by code_simp
  have b: "max_key (languages (scan_project_structure example_go_project)) = ''go''"
    by code_simp
  have c: "(''go'', 2) \<in> set (languages (scan_project_structure example_go_project))"
    by code_simp
  from primary_language_never_falls_back
         [of example_go_project "scan_project_structure example_go_project"] a
  have "primary_lang (detect_project_type example_go_project)
          (scan_project_structure example_go_project)
        = max_key (languages (scan_project_structure example_go_project))"
    by simp
  with a b c show ?thesis by simp
qed

section \<open>Properties of the repository inspection\<close>

text \<open>
  Claim C7. Whatever the invocations of the external tool do, \<open>analyze_git_status\<close>
  returns a result and lets no exception out. When the probe command exits with a
  non-zero status the result is \<open>{is_git_repo: False}\<close> and the probe is the only
  command that was run. When any command that was run raised, the result is the
  error shape, \<open>is_git_repo\<close> false, with the text of that exception.
\<close>

theorem analyze_git_status_never_raises:
  "(\<exists>g. fst (analyze_git_status run) = Inr g)
   \<and> (\<forall>r. run cmd_probe = Inr r \<and> returncode r \<noteq> 0
          \<longrightarrow> analyze_git_status run = (Inr NotRepo, [cmd_probe]))
   \<and> (\<forall>c e. c \<in> set (snd (analyze_git_status run)) \<and> run c = Inl e
          \<longrightarrow> fst (analyze_git_status run) = Inr (RepoError (message e))
              \<and> \<not> is_git_repo (RepoError (message e)))"
  unfolding analyze_git_status_def git_try_body_def is_git_repo_def
  by (auto simp: Let_def split: sum.splits if_splits)

theorem analyze_git_status_never_raises_witness:
  "analyze_git_status git_outside_repo = (Inr NotRepo, [cmd_probe])
   \<and> fst (analyze_git_status git_missing)
       = Inr (RepoError ''[Errno 2] No such file or directory: git'')"
proof -
  have a: "git_outside_repo cmd_probe = Inr (Completed 128 []) \<and> returncode (Completed 128 []) \<noteq> 0"
    by (simp add: git_outside_repo_def)
  have b: "cmd_probe \<in> set (snd (analyze_git_status git_missing))
           \<and> git_missing cmd_probe = Inl (Exception ''[Errno 2] No such file or directory: git'')"
    by (simp add: git_missing_def analyze_git_status_def git_try_body_def)
  from analyze_git_status_never_raises [of git_outside_repo] a
  have "analyze_git_status git_outside_repo = (Inr NotRepo, [cmd_probe])" by blast
  moreover from analyze_git_status_never_raises [of git_missing] b
  have "fst (analyze_git_status git_missing)
          = Inr (RepoError (message (Exception ''[Errno 2] No such file or directory: git'')))"
    by blast
  ultimately show ?thesis by simp
qed

lemma split_char_Nil: "split_str [x] [] = [[]]"
  by (simp add: split_str.simps)

lemma split_char_Cons:
  "split_str [x] (c # cs) =
     (if c = x then [] # split_str [x] cs
      else (case split_str [x] cs of l # ls \<Rightarrow> (c # l) # ls | [] \<Rightarrow> []))"
proof (cases "c = x")
  case True
  then show ?thesis by (subst split_str.simps) simp
next
  case False
  show ?thesis
  proof (cases "str_find [x] cs")
    case None
    then have "split_str [x] cs = [cs]" by (subst split_str.simps) simp
    with None False show ?thesis by (subst split_str.simps) simp
  next
    case (Some j)
    then have "split_str [x] cs = take j cs # split_str [x] (drop (j + 1) cs)"
      by (subst split_str.simps) simp
    with Some False show ?thesis by (subst split_str.simps) simp
  qed
qed

lemma split_char_not_Nil: "split_str [x] s \<noteq> []"
  by (induction s) (auto simp: split_char_Nil split_char_Cons split: list.splits)

lemma contains_Cons: "contains sub (c # cs) = (prefix sub (c # cs) \<or> contains sub cs)"
  by (simp add: contains_def)

lemma contains_Nil: "contains sub [] = (sub = [])"
  by (simp add: contains_def)

lemma split_hd_empty: "hd (split_str [x] s) = [] \<Longrightarrow> s = [] \<or> hd s = x"
  using split_char_not_Nil [of x "tl s"]
  by (cases s) (auto simp: split_char_Cons split: list.splits if_splits)

lemma split_tl_empty:
  "[] \<in> set (tl (split_str [x] s)) \<Longrightarrow> last s = x \<or> contains [x, x] s"
proof (induction s)
  case Nil
  then show ?case by (simp add: split_char_Nil)
next
  case (Cons c cs)
  show ?case
  proof (cases "c = x")
    case True
    with Cons.prems have mem: "[] \<in> set (split_str [x] cs)"
      by (simp add: split_char_Cons)
    show ?thesis
    proof (cases cs)
      case Nil
      with True show ?thesis by simp
    next
      case (Cons d ds)
      from mem split_char_not_Nil [of x cs]
      have "hd (split_str [x] cs) = [] \<or> [] \<in> set (tl (split_str [x] cs))"
        by (cases "split_str [x] cs") auto
      then show ?thesis
      proof
        assume "hd (split_str [x] cs) = []"
        with split_hd_empty Cons have "d = x" by fastforce
        with True Cons show ?thesis by (simp add: contains_Cons)
      next
        assume "[] \<in> set (tl (split_str [x] cs))"
        with Cons.IH have "last cs = x \<or> contains [x, x] cs" .
        with Cons show ?thesis by (auto simp: contains_Cons)
      qed
    qed
  next
    case False
    with Cons.prems split_char_not_Nil [of x cs] have "[] \<in> set (tl (split_str [x] cs))"
      by (cases "split_str [x] cs") (auto simp: split_char_Cons)
    with Cons.IH have "last cs = x \<or> contains [x, x] cs" .
    moreover have "cs \<noteq> []"
      using \<open>[] \<in> set (tl (split_str [x] cs))\<close> by (auto simp: split_char_Nil)
    ultimately show ?thesis by (auto simp: contains_Cons)
  qed
qed

lemma split_no_empty_line:
  assumes "s \<noteq> []" "hd s \<noteq> x" "last s \<noteq> x" "\<not> contains [x, x] s"
  shows "[] \<notin> set (split_str [x] s)"
proof
  assume "[] \<in> set (split_str [x] s)"
  with split_char_not_Nil [of x s]
  have "hd (split_str [x] s) = [] \<or> [] \<in> set (tl (split_str [x] s))"
    by (cases "split_str [x] s") auto
  with split_hd_empty [of x s] split_tl_empty [of x s] assms show False by blast
qed

lemma last_dropWhile: "dropWhile P xs \<noteq> [] \<Longrightarrow> last (dropWhile P xs) = last xs"
  by (induction xs) (auto split: if_splits)

lemma strip_ends:
  assumes "strip s \<noteq> []"
  shows "\<not> is_space (hd (strip s))" and "\<not> is_space (last (strip s))"
proof -
  let ?t = "dropWhile is_space s"
  let ?u = "dropWhile is_space (rev ?t)"
  from assms have u: "?u \<noteq> []" by (simp add: strip_def)
  have "\<And>t. t = [] \<Longrightarrow> dropWhile is_space (rev t) = []" by simp
  with u have t: "?t \<noteq> []" by blast
  have "hd (strip s) = last ?u" using u by (simp add: strip_def hd_rev)
  also have "\<dots> = last (rev ?t)" using u by (rule last_dropWhile)
  also have "\<dots> = hd ?t" using t by (simp add: last_rev)
  finally show "\<not> is_space (hd (strip s))" using t hd_dropWhile [of is_space s] by simp
  have "last (strip s) = hd ?u" using u by (simp add: strip_def last_rev)
  then show "\<not> is_space (last (strip s))" using u hd_dropWhile [of is_space "rev ?t"] by simp
qed

lemma is_space_nl: "is_space nl"
  by (simp add: is_space_def)

lemma nonempty_lines_strip:
  assumes "\<not> contains [nl, nl] (strip s)"
  shows "nonempty_lines (strip s) = (if strip s \<noteq> [] then split_str [nl] (strip s) else [])"
proof (cases "strip s = []")
  case True
  then show ?thesis by (simp add: nonempty_lines_def split_char_Nil)
next
  case False
  with strip_ends [of s] is_space_nl have "hd (strip s) \<noteq> nl" "last (strip s) \<noteq> nl"
    by auto
  with False assms have "[] \<notin> set (split_str [nl] (strip s))"
    by (intro split_no_empty_line)
  then have "filter (\<lambda>line. line \<noteq> []) (split_str [nl] (strip s)) = split_str [nl] (strip s)"
    by (auto simp: filter_id_conv)
  with False show ?thesis by (simp add: nonempty_lines_def)
qed

text \<open>
  Claim C8, as amended. When the outputs of the status and log commands, stripped of
  surrounding whitespace, hold no empty line, the change count is the number of
  lines of the stripped status listing and the recent commits are the lines of the
  stripped log output, in the order the tool emitted them. (The code splits the
  stripped text at every newline: blank lines at either end are dropped by the
  stripping, a blank line inside is counted and kept, as the counterexample shows.)
\<close>

theorem git_lines_of_stripped_output:
  assumes "run cmd_probe = Inr rp" and "returncode rp = 0"
    and "run cmd_branch = Inr rb" and "run cmd_status = Inr rs" and "run cmd_log = Inr rl"
    and "\<not> contains [nl, nl] (strip (stdout rs))"
    and "\<not> contains [nl, nl] (strip (stdout rl))"
  shows "fst (analyze_git_status run)
           = Inr (Repo (strip (stdout rb)) (strip (stdout rs) \<noteq> [])
                    (length (nonempty_lines (strip (stdout rs))))
                    (nonempty_lines (strip (stdout rl))))"
  using assms(1-5) nonempty_lines_strip [OF assms(6)] nonempty_lines_strip [OF assms(7)]
  by (simp add: analyze_git_status_def git_try_body_def Let_def)

theorem git_lines_of_stripped_output_witness:
  "fst (analyze_git_status git_clean_repo) = Inr (Repo ''main'' True 2 [''abc one'', ''def two''])"
proof -
  have s: "strip '' M a\<newline>?? b\<newline>'' = ''M a\<newline>?? b''"
    and l: "strip ''abc one\<newline>def two\<newline>'' = ''abc one\<newline>def two''"
    and b: "strip ''main\<newline>'' = ''main''"
    by code_simp+
  have n: "\<not> contains [nl, nl] ''M a\<newline>?? b''" "\<not> contains [nl, nl] ''abc one\<newline>def two''"
    by code_simp+
  have v: "nonempty_lines ''M a\<newline>?? b'' = [''M a'', ''?? b'']"
    "nonempty_lines ''abc one\<newline>def two'' = [''abc one'', ''def two'']"
    by code_simp+
  from git_lines_of_stripped_output
         [of git_clean_repo "Completed 0 ''.git\<newline>''" "Completed 0 ''main\<newline>''"
             "Completed 0 '' M a\<newline>?? b\<newline>''" "Completed 0 ''abc one\<newline>def two\<newline>''"]
  show ?thesis
    using s l b n v
    by (simp add: git_clean_repo_def cmd_probe_def cmd_branch_def cmd_status_def cmd_log_def)
qed

theorem git_blank_lines_counterexample:
  "fst (analyze_git_status git_blank_lines)
     = Inr (Repo ''main'' True 3 [''abc one'', [], ''def two''])
   \<and> length (nonempty_lines '' M a\<newline>\<newline> M b\<newline>'') = 2
   \<and> nonempty_lines ''abc one\<newline>\<newline>def two\<newline>'' = [''abc one'', ''def two'']"
  by code_simp

section \<open>Properties of the tooling detection\<close>

lemma foldl_add_script:
  "build (foldl add_script t names)
     = build t @ map (\<lambda>n. ''npm run '' @ n) (filter (\<lambda>n. category n = Some ''build'') names)"
  "test (foldl add_script t names)
     = test t @ map (\<lambda>n. ''npm run '' @ n) (filter (\<lambda>n. category n = Some ''test'') names)"
  "lint (foldl add_script t names)
     = lint t @ map (\<lambda>n. ''npm run '' @ n) (filter (\<lambda>n. category n = Some ''lint'') names)"
  "format (foldl add_script t names)
     = format t @ map (\<lambda>n. ''npm run '' @ n) (filter (\<lambda>n. category n = Some ''format'') names)"
  by (induction names arbitrary: t; simp add: add_script_def category_def)+

lemma count_list_npm:
  "count_list (map (\<lambda>n. ''npm run '' @ n) (filter P names)) (''npm run '' @ n)
     = (if P n then count_list names n else 0)"
  by (induction names) auto

lemma other_tools_no_npm:
  "count_list (build (go_tools ts (rust_tools ts (python_tools root ts t)))) (''npm run '' @ n)
     = count_list (build t) (''npm run '' @ n)"
  "count_list (test (go_tools ts (rust_tools ts (python_tools root ts t)))) (''npm run '' @ n)
     = count_list (test t) (''npm run '' @ n)"
  "count_list (lint (go_tools ts (rust_tools ts (python_tools root ts t)))) (''npm run '' @ n)
     = count_list (lint t) (''npm run '' @ n)"
  "count_list (format (go_tools ts (rust_tools ts (python_tools root ts t)))) (''npm run '' @ n)
     = count_list (format t) (''npm run '' @ n)"
  by (simp_all add: go_tools_def rust_tools_def python_tools_def Let_def)

lemma not_in_if_count_zero: "count_list xs x = 0 \<Longrightarrow> x \<notin> set xs"
  by (simp add: count_list_0_iff)

lemma category_examples:
  "category ''build:prod'' = Some ''build''" "category ''test:unit'' = Some ''test''"
  "category ''release'' = None"
  by code_simp+

text \<open>
  Claim C6. When the project is tagged javascript or typescript and its manifest
  parses to a script table, every script name contributes the command
  \<open>npm run <name>\<close> to the list of its category and to no other list, once per
  occurrence of the name in the table; no other rule emits such a command. So
  \<open>build:prod\<close> gives one command in the build category only, \<open>test:unit\<close> one in the
  test category only, and \<open>release\<close> appears in no category.
\<close>

theorem detect_build_tools_classifies_scripts:
  assumes "''javascript'' \<in> set types \<or> ''typescript'' \<in> set types"
    and "map_of (dfiles root) ''package.json'' = Some text"
    and "load text = Scripts names"
  shows "\<exists>t. detect_build_tools load root types = Inr t
           \<and> (\<forall>c n. c \<in> set [''build'', ''test'', ''lint'', ''format''] \<longrightarrow>
                  count_list (tools_get t c) (''npm run '' @ n)
                    = (if category n = Some c then count_list names n else 0))
           \<and> count_list (build t) ''npm run build:prod'' = count_list names ''build:prod''
           \<and> ''npm run build:prod'' \<notin> set (test t) \<union> set (lint t) \<union> set (format t)
           \<and> count_list (test t) ''npm run test:unit'' = count_list names ''test:unit''
           \<and> ''npm run test:unit'' \<notin> set (build t) \<union> set (lint t) \<union> set (format t)
           \<and> ''npm run release'' \<notin> set (build t) \<union> set (test t) \<union> set (lint t) \<union> set (format t)"
proof -
  let ?t0 = "foldl add_script empty_tools names"
  let ?t = "go_tools types (rust_tools types (python_tools root types ?t0))"
  from assms(2) have "(''package.json'', text) \<in> set (dfiles root)"
    by (rule map_of_SomeD)
  then have "''package.json'' \<in> fst ` set (dfiles root)"
    by (rule rev_image_eqI) simp
  then have "root_exists root ''package.json''"
    by (simp add: root_exists_def)
  with assms have res: "detect_build_tools load root types = Inr ?t"
    by (simp add: detect_build_tools_def package_json_tools_def)
  have b: "count_list (build ?t) (''npm run '' @ n)
             = (if category n = Some ''build'' then count_list names n else 0)" for n
    by (simp only: other_tools_no_npm foldl_add_script count_list_append count_list_npm)
       (simp add: empty_tools_def)
  have t: "count_list (test ?t) (''npm run '' @ n)
             = (if category n = Some ''test'' then count_list names n else 0)" for n
    by (simp only: other_tools_no_npm foldl_add_script count_list_append count_list_npm)
       (simp add: empty_tools_def)
  have l: "count_list (lint ?t) (''npm run '' @ n)
             = (if category n = Some ''lint'' then count_list names n else 0)" for n
    by (simp only: other_tools_no_npm foldl_add_script count_list_append count_list_npm)
       (simp add: empty_tools_def)
  have f: "count_list (format ?t) (''npm run '' @ n)
             = (if category n = Some ''format'' then count_list names n else 0)" for n
    by (simp only: other_tools_no_npm foldl_add_script count_list_append count_list_npm)
       (simp add: empty_tools_def)
  have cnt: "\<forall>c n. c \<in> set [''build'', ''test'', ''lint'', ''format''] \<longrightarrow>
               count_list (tools_get ?t c) (''npm run '' @ n)
                 = (if category n = Some c then count_list names n else 0)"
  proof (intro allI impI)
    fix c n assume "c \<in> set [''build'', ''test'', ''lint'', ''format'']"
    then consider "c = ''build''" | "c = ''test''" | "c = ''lint''" | "c = ''format''"
      by auto
    then show "count_list (tools_get ?t c) (''npm run '' @ n)
                 = (if category n = Some c then count_list names n else 0)"
    proof cases
      case 1 with b [of n] show ?thesis by (simp only: tools_get_def) simp
    next
      case 2 with t [of n] show ?thesis by (simp only: tools_get_def) simp
    next
      case 3 with l [of n] show ?thesis by (simp only: tools_get_def) simp
    next
      case 4 with f [of n] show ?thesis by (simp only: tools_get_def) simp
    qed
  qed
  have bp: "''npm run build:prod'' = ''npm run '' @ ''build:prod''"
    and tu: "''npm run test:unit'' = ''npm run '' @ ''test:unit''"
    and re: "''npm run release'' = ''npm run '' @ ''release''"
    by simp_all
  have c1: "count_list (build ?t) ''npm run build:prod'' = count_list names ''build:prod''"
    unfolding bp b by (simp only: category_examples) simp
  have c3: "count_list (test ?t) ''npm run test:unit'' = count_list names ''test:unit''"
    unfolding tu t by (simp only: category_examples) simp
  have bp_t: "''npm run '' @ ''build:prod'' \<notin> set (test ?t)"
    by (rule not_in_if_count_zero) (simp only: t category_examples, simp)
  have bp_l: "''npm run '' @ ''build:prod'' \<notin> set (lint ?t)"
    by (rule not_in_if_count_zero) (simp only: l category_examples, simp)
  have bp_f: "''npm run '' @ ''build:prod'' \<notin> set (format ?t)"
    by (rule not_in_if_count_zero) (simp only: f category_examples, simp)
  have tu_b: "''npm run '' @ ''test:unit'' \<notin> set (build ?t)"
    by (rule not_in_if_count_zero) (simp only: b category_examples, simp)
  have tu_l: "''npm run '' @ ''test:unit'' \<notin> set (lint ?t)"
    by (rule not_in_if_count_zero) (simp only: l category_examples, simp)
  have tu_f: "''npm run '' @ ''test:unit'' \<notin> set (format ?t)"
    by (rule not_in_if_count_zero) (simp only: f category_examples, simp)
  have re_b: "''npm run '' @ ''release'' \<notin> set (build ?t)"
    by (rule not_in_if_count_zero) (simp only: b category_examples, simp)
  have re_t: "''npm run '' @ ''release'' \<notin> set (test ?t)"
    by (rule not_in_if_count_zero) (simp only: t category_examples, simp)
  have re_l: "''npm run '' @ ''release'' \<notin> set (lint ?t)"
    by (rule not_in_if_count_zero) (simp only: l category_examples, simp)
  have re_f: "''npm run '' @ ''release'' \<notin> set (format ?t)"
    by (rule not_in_if_count_zero) (simp only: f category_examples, simp)
  have c2: "''npm run build:prod'' \<notin> set (test ?t) \<union> set (lint ?t) \<union> set (format ?t)"
    unfolding bp using bp_t bp_l bp_f by blast
  have c4: "''npm run test:unit'' \<notin> set (build ?t) \<union> set (lint ?t) \<union> set (format ?t)"
    unfolding tu using tu_b tu_l tu_f by blast
  have c5: "''npm run release'' \<notin> set (build ?t) \<union> set (test ?t) \<union> set (lint ?t) \<union> set (format ?t)"
    unfolding re using re_b re_t re_l re_f by blast
  from res cnt c1 c2 c3 c4 c5 show ?thesis
    by (intro exI [of _ ?t] conjI)
qed

theorem detect_build_tools_classifies_scripts_witness:
  "\<exists>t. detect_build_tools example_loader example_manifest_project [''javascript'', ''typescript'']
          = Inr t
        \<and> build t = [''npm run build:prod''] \<and> test t = [''npm run test:unit'']
        \<and> lint t = [] \<and> format t = []
        \<and> count_list (build t) ''npm run build:prod'' = 1"
proof -
  have h: "''javascript'' \<in> set [''javascript'', ''typescript'']
             \<or> ''typescript'' \<in> set [''javascript'', ''typescript'']"
    "map_of (dfiles example_manifest_project) ''package.json'' = Some ''{}''"
    "example_loader ''{}'' = Scripts [''build:prod'', ''test:unit'', ''release'']"
    by (simp_all add: example_manifest_project_def example_loader_def)
  from detect_build_tools_classifies_scripts
         [of "[''javascript'', ''typescript'']" example_manifest_project "''{}''" example_loader
             "[''build:prod'', ''test:unit'', ''release'']", OF h]
  obtain t where t: "detect_build_tools example_loader example_manifest_project
                       [''javascript'', ''typescript''] = Inr t"
    and c: "count_list (build t) ''npm run build:prod''
              = count_list [''build:prod'', ''test:unit'', ''release''] ''build:prod''"
    by blast
  have e: "detect_build_tools example_loader example_manifest_project [''javascript'', ''typescript'']
             = Inr \<lparr>build = [''npm run build:prod''], test = [''npm run test:unit''],
                    lint = [], format = []\<rparr>"
    by code_simp
  from t e have "t = \<lparr>build = [''npm run build:prod''], test = [''npm run test:unit''],
                    lint = [], format = []\<rparr>" by simp
  with t c show ?thesis by simp
qed

section \<open>Properties of the tree scan\<close>

lemma dname_prune: "dname (prune d) = dname d"
  by (cases d) simp

lemma walk_prune: "walk rel (prune d) = walk rel d"
proof (induction d arbitrary: rel)
  case (Dir name fs subs)
  have "map (\<lambda>d. walk (rel @ [dname d]) d)
          (filter (\<lambda>d. keep_dir (dname d)) (map prune (filter (\<lambda>d. keep_dir (dname d)) subs)))
        = map (\<lambda>d. walk (rel @ [dname d]) d) (filter (\<lambda>d. keep_dir (dname d)) subs)"
    using Dir.IH by (induction subs) (auto simp: dname_prune)
  then show ?case by simp
qed

lemma walk_paths_kept:
  "(p, name, files) \<in> set (walk rel d) \<Longrightarrow> \<exists>q. p = rel @ q \<and> (\<forall>c \<in> set q. keep_dir c)"
proof (induction d arbitrary: rel)
  case (Dir n fs subs)
  from Dir.prems consider "p = rel"
    | sub where "sub \<in> set subs" "keep_dir (dname sub)"
        "(p, name, files) \<in> set (walk (rel @ [dname sub]) sub)"
    by auto
  then show ?case
  proof cases
    case 1
    then show ?thesis by simp
  next
    case 2
    from Dir.IH [OF 2(1) 2(3)] obtain q where "p = (rel @ [dname sub]) @ q" "\<forall>c \<in> set q. keep_dir c"
      by blast
    with 2(2) show ?thesis by (intro exI [of _ "dname sub # q"]) simp
  qed
qed

text \<open>
  Claim C5. No directory the walk visits lies below a subdirectory whose name
  starts with a dot or is one of \<open>node_modules\<close>, \<open>__pycache__\<close>, \<open>target\<close>: every
  component of its path relative to the root is a kept name. And nothing below such
  a subdirectory contributes to the result: the scan of a tree is the scan of the
  tree with those subdirectories removed, so two trees that differ only there give
  the same counts and lists.
\<close>

theorem scan_never_enters_excluded_directories:
  "(\<forall>(rel, name, files) \<in> set (walk [] root).
      \<forall>d \<in> set rel. \<not> prefix ''.'' d \<and> d \<notin> {''node_modules'', ''__pycache__'', ''target''})
   \<and> scan_project_structure (prune root) = scan_project_structure root
   \<and> (prune root' = prune root \<longrightarrow> scan_project_structure root' = scan_project_structure root)"
proof (intro conjI impI)
  show "\<forall>(rel, name, files) \<in> set (walk [] root).
          \<forall>d \<in> set rel. \<not> prefix ''.'' d \<and> d \<notin> {''node_modules'', ''__pycache__'', ''target''}"
  proof (clarify, intro conjI)
    fix rel name files d
    assume "(rel, name, files) \<in> set (walk [] root)" "d \<in> set rel"
    with walk_paths_kept [of rel name files "[]" root] have k: "keep_dir d" by auto
    from k show "\<not> prefix ''.'' d" by (simp add: keep_dir_def)
    from k show "d \<notin> {''node_modules'', ''__pycache__'', ''target''}"
      by (simp add: keep_dir_def excluded_dirs_def)
  qed
next
  show "scan_project_structure (prune root) = scan_project_structure root"
    by (simp only: scan_project_structure_def walk_prune)
next
  assume "prune root' = prune root"
  then have "walk [] (prune root') = walk [] (prune root)" by simp
  then have "walk [] root' = walk [] root" by (simp only: walk_prune)
  then show "scan_project_structure root' = scan_project_structure root"
    by (simp add: scan_project_structure_def)
qed

theorem scan_never_enters_excluded_directories_witness:
  "prune example_vendored_project = prune example_bare_project
   \<and> scan_project_structure example_vendored_project = scan_project_structure example_bare_project
   \<and> scan_project_structure example_vendored_project
       = \<lparr>config_files = [], source_dirs = [''src''], doc_files = [], test_dirs = [],
          total_files = 2, languages = [(''python'', 2)]\<rparr>"
proof -
  have p: "prune example_vendored_project = prune example_bare_project"
    by code_simp
  have v: "scan_project_structure example_bare_project
             = \<lparr>config_files = [], source_dirs = [''src''], doc_files = [], test_dirs = [],
                total_files = 2, languages = [(''python'', 2)]\<rparr>"
    by code_simp
  from scan_never_enters_excluded_directories [of example_bare_project example_vendored_project] p
  have "scan_project_structure example_vendored_project = scan_project_structure example_bare_project"
    by simp
  with p v show ?thesis by simp
qed

section \<open>Properties of the task-tracker update\<close>

lemma split_hd: "hd (split_str [x] s) = takeWhile (\<lambda>c. c \<noteq> x) s"
  using split_char_not_Nil [of x]
  by (induction s) (auto simp: split_char_Nil split_char_Cons split: list.splits)

lemma split_append_line:
  "x \<notin> set a \<Longrightarrow> split_str [x] (a @ s) = (a @ hd (split_str [x] s)) # tl (split_str [x] s)"
  using split_char_not_Nil [of x s]
  by (induction a) (auto simp: split_char_Cons split: list.splits)





lemma str_find_prefix: "prefix sub s \<Longrightarrow> str_find sub s = Some 0"
  by (cases s) auto

lemma sub_line_Nil: "sub_line repl [] = []"
  by (simp add: sub_line_def last_updated_def)

lemma sub_line_prefix: "prefix last_updated l \<Longrightarrow> sub_line repl l = repl"
  by (simp add: sub_line_def str_find_prefix)

lemma sub_line_Cons:
  "\<not> prefix last_updated (c # l) \<Longrightarrow> sub_line repl (c # l) = c # sub_line repl l"
  by (simp add: sub_line_def split: option.splits)

lemma first_line_split: "s = takeWhile (\<lambda>c. c \<noteq> x) s @ dropWhile (\<lambda>c. c \<noteq> x) s"
  by simp

lemma takeWhile_dropWhile_Nil: "takeWhile P (dropWhile P xs) = []"
  by (induction xs) auto

lemma split_rest:
  "split_str [x] s
     = takeWhile (\<lambda>c. c \<noteq> x) s # tl (split_str [x] (dropWhile (\<lambda>c. c \<noteq> x) s))"
proof -
  have "x \<notin> set (takeWhile (\<lambda>c. c \<noteq> x) s)"
    by (auto dest: set_takeWhileD)
  then have "split_str [x] (takeWhile (\<lambda>c. c \<noteq> x) s @ dropWhile (\<lambda>c. c \<noteq> x) s)
               = (takeWhile (\<lambda>c. c \<noteq> x) s @ hd (split_str [x] (dropWhile (\<lambda>c. c \<noteq> x) s)))
                 # tl (split_str [x] (dropWhile (\<lambda>c. c \<noteq> x) s))"
    by (rule split_append_line)
  moreover have "hd (split_str [x] (dropWhile (\<lambda>c. c \<noteq> x) s)) = []"
    by (simp only: split_hd takeWhile_dropWhile_Nil)
  ultimately show ?thesis by simp
qed

lemma prefix_first_line:
  assumes "x \<notin> set sub"
  shows "prefix sub (takeWhile (\<lambda>c. c \<noteq> x) s) = prefix sub s"
proof
  assume "prefix sub (takeWhile (\<lambda>c. c \<noteq> x) s)"
  moreover have "prefix (takeWhile (\<lambda>c. c \<noteq> x) s) s"
    by (rule takeWhile_is_prefix)
  ultimately show "prefix sub s" by (rule prefix_order.trans)
next
  assume "prefix sub s"
  then obtain r where s: "s = sub @ r" by (auto simp: prefix_def)
  from assms have "takeWhile (\<lambda>c. c \<noteq> x) (sub @ r) = sub @ takeWhile (\<lambda>c. c \<noteq> x) r"
    by (intro takeWhile_append2) auto
  with s show "prefix sub (takeWhile (\<lambda>c. c \<noteq> x) s)" by simp
qed

lemma dropWhile_after_prefix:
  assumes "x \<notin> set sub" "prefix sub s"
  shows "dropWhile (\<lambda>c. c \<noteq> x) (drop (length sub) s) = dropWhile (\<lambda>c. c \<noteq> x) s"
proof -
  from assms(2) obtain r where s: "s = sub @ r" by (auto simp: prefix_def)
  from assms(1) have "dropWhile (\<lambda>c. c \<noteq> x) (sub @ r) = dropWhile (\<lambda>c. c \<noteq> x) r"
    by (intro dropWhile_append2) auto
  with s show ?thesis by simp
qed

lemma re_sub_lines:
  "nl \<notin> set repl \<Longrightarrow>
   split_str [nl] (re_sub_last_updated repl s) = map (sub_line repl) (split_str [nl] s)"
proof (induction repl s rule: re_sub_last_updated.induct)
  case (1 repl)
  show ?case by (simp add: split_char_Nil sub_line_Nil)
next
  case (2 repl c cs)
  note assms = \<open>nl \<notin> set repl\<close>
  have no_nl: "nl \<notin> set last_updated" by (simp add: last_updated_def)
  show ?case
  proof (cases "prefix last_updated (c # cs)")
    case True
    let ?rest = "dropWhile (\<lambda>x. x \<noteq> nl) (c # cs)"
    let ?line = "takeWhile (\<lambda>x. x \<noteq> nl) (c # cs)"
    from True no_nl have rest: "dropWhile (\<lambda>x. x \<noteq> nl) (drop (length last_updated) (c # cs)) = ?rest"
      by (intro dropWhile_after_prefix)
    with True 2 have ih: "split_str [nl] (re_sub_last_updated repl ?rest)
                            = map (sub_line repl) (split_str [nl] ?rest)"
      by simp
    have hd0: "hd (split_str [nl] ?rest) = []"
      by (simp only: split_hd takeWhile_dropWhile_Nil)
    from True rest have "re_sub_last_updated repl (c # cs) = repl @ re_sub_last_updated repl ?rest"
      by (simp add: re_sub_last_updated.simps(2))
    then have "split_str [nl] (re_sub_last_updated repl (c # cs))
                 = (repl @ hd (split_str [nl] (re_sub_last_updated repl ?rest)))
                   # tl (split_str [nl] (re_sub_last_updated repl ?rest))"
      by (simp only: split_append_line [OF assms])
    also have "\<dots> = repl # map (sub_line repl) (tl (split_str [nl] ?rest))"
      using hd0 split_char_not_Nil [of nl ?rest]
      by (simp only: ih) (simp add: hd_map map_tl sub_line_Nil)
    finally have A: "split_str [nl] (re_sub_last_updated repl (c # cs))
                       = repl # map (sub_line repl) (tl (split_str [nl] ?rest))" .
    from True have "prefix last_updated ?line"
      by (simp only: prefix_first_line [OF no_nl])
    then have B: "sub_line repl ?line = repl"
      by (simp only: sub_line_prefix)
    have C: "split_str [nl] (c # cs) = ?line # tl (split_str [nl] ?rest)"
      by (rule split_rest)
    show ?thesis
      by (simp only: A B C list.map)
  next
    case False
    with 2 have ih: "split_str [nl] (re_sub_last_updated repl cs)
                       = map (sub_line repl) (split_str [nl] cs)"
      by simp
    from False have eq: "re_sub_last_updated repl (c # cs) = c # re_sub_last_updated repl cs"
      by (simp add: re_sub_last_updated.simps(2))
    obtain l ls where sp: "split_str [nl] cs = l # ls"
      using split_char_not_Nil [of nl cs] by (cases "split_str [nl] cs") auto
    show ?thesis
    proof (cases "c = nl")
      case True
      with eq ih show ?thesis by (simp add: split_char_Cons sub_line_Nil)
    next
      case cnl: False
      from sp have "l = takeWhile (\<lambda>x. x \<noteq> nl) cs"
        using split_hd [of nl cs] by simp
      with cnl have "c # l = takeWhile (\<lambda>x. x \<noteq> nl) (c # cs)" by simp
      with False have "\<not> prefix last_updated (c # l)"
        using prefix_first_line [OF no_nl, of "c # cs"] by simp
      then have "sub_line repl (c # l) = c # sub_line repl l"
        by (rule sub_line_Cons)
      with cnl eq ih sp show ?thesis by (simp add: split_char_Cons)
    qed
  qed
qed

lemma digit_char_no_nl: "k < 10 \<Longrightarrow> digit_char k \<noteq> nl"
proof
  assume k: "k < 10" and "digit_char k = nl"
  then have "(of_char (char_of (48 + k)) :: nat) = of_char nl"
    by (simp add: digit_char_def)
  with k show False by simp
qed

lemma str_of_nat_no_nl: "nl \<notin> set (str_of_nat n)"
proof (induction n rule: str_of_nat.induct)
  case (1 n)
  show ?case
  proof (cases "n < 10")
    case True
    with digit_char_no_nl [of n] show ?thesis by (subst str_of_nat.simps) auto
  next
    case False
    with 1 have "nl \<notin> set (str_of_nat (n div 10))" by simp
    moreover have "digit_char (n mod 10) \<noteq> nl" by (rule digit_char_no_nl) simp
    ultimately show ?thesis using False by (subst str_of_nat.simps) auto
  qed
qed

lemma pad_no_nl: "nl \<notin> set (pad w n)"
  by (simp add: pad_def Let_def str_of_nat_no_nl)

lemma fmt_timestamp_no_nl: "nl \<notin> set (fmt_timestamp t)"
  by (simp add: fmt_timestamp_def fmt_date_def pad_no_nl)

text \<open>
  Claim C3, as amended. The replacement step works line by line: a line without the
  marker \<open>**Last Updated:**\<close> is kept as it is, and in every line that holds the
  marker (not only the first such line) the text before the first marker is kept
  and the rest of the line is replaced by the marker and the new timestamp. The
  number of lines and every other character are preserved.
\<close>

theorem timestamp_update_keeps_other_text:
  "split_str [nl] (re_sub_last_updated (''**Last Updated:** '' @ fmt_timestamp now) existing_content)
     = map (\<lambda>line. case str_find last_updated line of
                     None \<Rightarrow> line
                   | Some i \<Rightarrow> take i line @ ''**Last Updated:** '' @ fmt_timestamp now)
         (split_str [nl] existing_content)"
proof -
  have "nl \<notin> set (''**Last Updated:** '' @ fmt_timestamp now)"
    by (simp add: fmt_timestamp_no_nl)
  then have "split_str [nl] (re_sub_last_updated (''**Last Updated:** '' @ fmt_timestamp now) existing_content)
               = map (sub_line (''**Last Updated:** '' @ fmt_timestamp now))
                   (split_str [nl] existing_content)"
    by (rule re_sub_lines)
  moreover have "sub_line (''**Last Updated:** '' @ fmt_timestamp now)
                   = (\<lambda>line. case str_find last_updated line of
                                None \<Rightarrow> line
                              | Some i \<Rightarrow> take i line @ ''**Last Updated:** '' @ fmt_timestamp now)"
    by (rule ext) (simp only: sub_line_def)
  ultimately show ?thesis by (simp only:)
qed

theorem timestamp_update_keeps_other_text_witness:
  "split_str [nl] (re_sub_last_updated (''**Last Updated:** '' @ fmt_timestamp example_time)
      ''# Task Tracker\<newline>note **Last Updated:** old\<newline>## Pending Tasks'')
     = [''# Task Tracker'', ''note **Last Updated:** 2024-03-09 07:05:59'', ''## Pending Tasks'']"
proof -
  have "map (\<lambda>line. case str_find last_updated line of
                     None \<Rightarrow> line
                   | Some i \<Rightarrow> take i line @ ''**Last Updated:** '' @ fmt_timestamp example_time)
         (split_str [nl] ''# Task Tracker\<newline>note **Last Updated:** old\<newline>## Pending Tasks'')
        = [''# Task Tracker'', ''note **Last Updated:** 2024-03-09 07:05:59'', ''## Pending Tasks'']"
    by code_simp
  with timestamp_update_keeps_other_text
         [of example_time "''# Task Tracker\<newline>note **Last Updated:** old\<newline>## Pending Tasks''"]
  show ?thesis by simp
qed

theorem timestamp_update_all_matches_counterexample:
  "re_sub_last_updated (''**Last Updated:** '' @ fmt_timestamp example_time)
     ''**Last Updated:** a\<newline>**Last Updated:** b''
     = ''**Last Updated:** 2024-03-09 07:05:59\<newline>**Last Updated:** 2024-03-09 07:05:59''
   \<and> replace_first (''**Last Updated:** '' @ fmt_timestamp example_time)
       ''**Last Updated:** a\<newline>**Last Updated:** b''
     = ''**Last Updated:** 2024-03-09 07:05:59\<newline>**Last Updated:** b''"
  by code_simp

lemma contains_iff: "contains sub s \<longleftrightarrow> (\<exists>a b. s = a @ sub @ b)"
proof (induction s)
  case Nil
  then show ?case by (simp add: contains_Nil)
next
  case (Cons c cs)
  show ?case
  proof
    assume "contains sub (c # cs)"
    then consider "prefix sub (c # cs)" | "contains sub cs"
      by (auto simp: contains_Cons)
    then show "\<exists>a b. c # cs = a @ sub @ b"
    proof cases
      case 1
      then obtain b where "c # cs = sub @ b" by (auto simp: prefix_def)
      then have "c # cs = [] @ sub @ b" by simp
      then show ?thesis by blast
    next
      case 2
      with Cons obtain a b where "cs = a @ sub @ b" by blast
      then have "c # cs = (c # a) @ sub @ b" by simp
      then show ?thesis by blast
    qed
  next
    assume "\<exists>a b. c # cs = a @ sub @ b"
    then obtain a b where ab: "c # cs = a @ sub @ b" by blast
    show "contains sub (c # cs)"
    proof (cases a)
      case Nil
      with ab have "prefix sub (c # cs)" by (simp add: prefix_def)
      then show ?thesis by (simp add: contains_Cons)
    next
      case (Cons d a')
      with ab have "cs = a' @ sub @ b" by simp
      with Cons.IH have "contains sub cs" by blast
      then show ?thesis by (simp add: contains_Cons)
    qed
  qed
qed



lemma str_find_skip:
  "sub \<noteq> [] \<Longrightarrow> hd sub \<notin> set p \<Longrightarrow>
   str_find sub (p @ r) = map_option (\<lambda>i. length p + i) (str_find sub r)"
proof (induction p)
  case Nil
  then show ?case by (simp add: option.map_ident)
next
  case (Cons c p)
  from Cons.prems have "\<not> prefix sub (c # p @ r)"
    by (cases sub) auto
  with Cons show ?case by (simp add: option.map_comp comp_def)
qed

lemma sub_line_keeps_heading:
  assumes "prefix pending_heading l"
  shows "prefix pending_heading (sub_line repl l)"
proof -
  from assms obtain r where l: "l = pending_heading @ r" by (auto simp: prefix_def)
  have "str_find last_updated (pending_heading @ r)
          = map_option (\<lambda>i. length pending_heading + i) (str_find last_updated r)"
    by (rule str_find_skip) (simp_all add: last_updated_def pending_heading_def)
  with l show ?thesis
    by (cases "str_find last_updated r") (simp_all add: sub_line_def)
qed

lemma prefix_contains: "prefix x l \<Longrightarrow> contains x l"
  by (simp add: contains_def str_find_prefix)



section \<open>Properties of the overview update\<close>

lemma split_str_None: "str_find sep s = None \<Longrightarrow> split_str sep s = [s]"
  by (subst split_str.simps) simp

lemma split_str_Some:
  "str_find sep s = Some i \<Longrightarrow> sep \<noteq> [] \<Longrightarrow>
   split_str sep s = take i s # split_str sep (drop (i + length sep) s)"
  by (subst split_str.simps) simp

lemma hd_split_str:
  "sep \<noteq> [] \<Longrightarrow>
   hd (split_str sep s) = (case str_find sep s of None \<Rightarrow> s | Some j \<Rightarrow> take j s)"
  by (cases "str_find sep s") (simp_all add: split_str_None split_str_Some)

lemma split_str_not_Nil: "split_str sep s \<noteq> []"
  by (subst split_str.simps) (simp split: option.splits)

lemma contains_ConsD: "\<not> contains x (c # s) \<Longrightarrow> \<not> contains x s"
  by (simp add: contains_Cons)

lemma top_heading_is_first:
  "\<not> contains (nl # ''###'')
       (case find_top_heading a of None \<Rightarrow> a | Some j \<Rightarrow> take j a) \<Longrightarrow>
   str_find (nl # ''##'') a = find_top_heading a"
proof (induction a)
  case Nil
  then show ?case by simp
next
  case (Cons c cs)
  show ?case
  proof (cases "prefix (nl # ''##'') (c # cs)")
    case False
    have sec: "(case find_top_heading (c # cs) of None \<Rightarrow> c # cs | Some j \<Rightarrow> take j (c # cs))
                 = c # (case find_top_heading cs of None \<Rightarrow> cs | Some j \<Rightarrow> take j cs)"
      using False by (cases "find_top_heading cs") auto
    from Cons.prems have "\<not> contains (nl # ''###'')
        (case find_top_heading cs of None \<Rightarrow> cs | Some j \<Rightarrow> take j cs)"
      unfolding sec by (rule contains_ConsD)
    with Cons.IH have "str_find (nl # ''##'') cs = find_top_heading cs" by blast
    with False show ?thesis by auto
  next
    case True
    show ?thesis
    proof (cases "prefix (nl # ''###'') (c # cs)")
      case False
      with True show ?thesis by simp
    next
      case deep: True
      then obtain r where cs: "c = nl" "cs = ''###'' @ r"
        by (auto simp: prefix_def)
      have ft: "find_top_heading (c # cs) = map_option (\<lambda>j. Suc (Suc (Suc (Suc j)))) (find_top_heading r)"
        unfolding cs by (simp add: option.map_comp comp_def)
      have "contains (nl # ''###'')
              (case find_top_heading (c # cs) of None \<Rightarrow> c # cs | Some j \<Rightarrow> take j (c # cs))"
      proof (cases "find_top_heading r")
        case None
        with ft deep show ?thesis by (simp add: contains_Cons)
      next
        case (Some j)
        with ft have "find_top_heading (c # cs) = Some (Suc (Suc (Suc (Suc j))))" by simp
        moreover have "prefix (nl # ''###'') (take (Suc (Suc (Suc (Suc j)))) (c # cs))"
          unfolding cs by simp
        ultimately show ?thesis
          by (simp add: prefix_contains)
      qed
      with Cons.prems show ?thesis by blast
    qed
  qed
qed

lemma keeps_name_put_file: "keeps_name (put_file name text)"
  by (simp add: keeps_name_def put_file_def)

lemma upd_names:
  "keeps_name f \<Longrightarrow> dname (upd_dir p f d) = dname d"
  "keeps_name f \<Longrightarrow> map dname (upd_subs n ns f subs) = map dname subs"
  by (induction p f d and n ns f subs rule: upd_dir_upd_subs.induct)
     (simp_all add: keeps_name_def)

lemma dfiles_upd_dir: "dfiles (upd_dir (n # ns) f d) = dfiles d"
  by simp

lemma root_exists_upd_dir:
  "keeps_name f \<Longrightarrow> root_exists (upd_dir (n # ns) f d) x = root_exists d x"
  by (simp add: root_exists_def upd_names)

lemma filter_upd_subs:
  "keeps_name f \<Longrightarrow> \<not> keep_dir n \<Longrightarrow>
   filter (\<lambda>d. keep_dir (dname d)) (upd_subs n ns f subs) = filter (\<lambda>d. keep_dir (dname d)) subs"
  by (induction subs) (simp_all add: upd_names)

lemma walk_upd_dir:
  "keeps_name f \<Longrightarrow> \<not> keep_dir n \<Longrightarrow> walk rel (upd_dir (n # ns) f d) = walk rel d"
  by (cases d) (simp add: filter_upd_subs)

lemma scan_upd_dir:
  "keeps_name f \<Longrightarrow> \<not> keep_dir n \<Longrightarrow>
   scan_project_structure (upd_dir (n # ns) f d) = scan_project_structure d"
  by (simp add: scan_project_structure_def walk_upd_dir del: upd_dir.simps)

lemma find_upd_subs:
  "keeps_name f \<Longrightarrow>
   find (\<lambda>s. dname s = m) (upd_subs n ns f subs)
     = map_option (\<lambda>s. if m = n then upd_dir ns f s else s) (find (\<lambda>s. dname s = m) subs)"
  by (induction subs) (auto simp: upd_names option.map_ident)

lemma lookup_upd_dir:
  "keeps_name f \<Longrightarrow>
   lookup_dir p (upd_dir (p @ q) f d) = map_option (upd_dir q f) (lookup_dir p d)"
proof (induction p arbitrary: d)
  case Nil
  then show ?case by simp
next
  case (Cons n p)
  show ?case
  proof (cases "find (\<lambda>s. dname s = n) (dsubs d)")
    case None
    with Cons.prems show ?thesis by (simp add: find_upd_subs)
  next
    case (Some sub)
    with Cons show ?thesis by (simp add: find_upd_subs)
  qed
qed

lemma entry_in_put_same: "entry_in (put_file name text d) name = Some (File text)"
proof -
  have "map_of (set_file name text fs) name = Some text" for fs
    by (induction fs) auto
  then show ?thesis by (simp add: entry_in_def put_file_def)
qed

lemma entry_in_put_other:
  "name' \<noteq> name \<Longrightarrow> entry_in (put_file name text d) name' = entry_in d name'"
proof -
  assume ne: "name' \<noteq> name"
  have "map_of (set_file name text fs) name' = map_of fs name'" for fs
    using ne by (induction fs) auto
  then show ?thesis by (simp add: entry_in_def put_file_def)
qed

lemma entry_in_upd_below:
  "keeps_name f \<Longrightarrow> entry_in (upd_dir (n # ns) f d) x = entry_in d x"
  by (simp add: entry_in_def upd_names)

lemma write_file_result:
  "write_file p name text r = Inr r' \<Longrightarrow> r' = upd_dir p (put_file name text) r \<and> lookup_dir p r \<noteq> None"
  by (auto simp: write_file_def split: option.splits entry.splits)

lemma str_find_SomeD: "str_find sub s = Some k \<Longrightarrow> prefix sub (drop k s)"
proof (induction s arbitrary: k)
  case Nil
  then show ?case by (simp split: if_splits)
next
  case (Cons c cs)
  show ?case
  proof (cases "prefix sub (c # cs)")
    case True
    with Cons.prems show ?thesis by simp
  next
    case False
    with Cons.prems obtain k' where "str_find sub cs = Some k'" "k = Suc k'" by auto
    with Cons.IH show ?thesis by simp
  qed
qed

lemma str_find_first: "str_find sub s = Some k \<Longrightarrow> k' < k \<Longrightarrow> \<not> prefix sub (drop k' s)"
proof (induction s arbitrary: k k')
  case Nil
  then show ?case by (simp split: if_splits)
next
  case (Cons c cs)
  show ?case
  proof (cases "prefix sub (c # cs)")
    case True
    with Cons.prems show ?thesis by simp
  next
    case False
    with Cons.prems obtain j where j: "str_find sub cs = Some j" "k = Suc j" by auto
    show ?thesis
    proof (cases k')
      case 0
      with False show ?thesis by simp
    next
      case (Suc m)
      with Cons.prems j have "m < j" by simp
      with Cons.IH j have "\<not> prefix sub (drop m cs)" by blast
      with Suc show ?thesis by simp
    qed
  qed
qed

lemma str_find_SomeI:
  "prefix sub (drop k s) \<Longrightarrow> k \<le> length s \<Longrightarrow> (\<forall>k' < k. \<not> prefix sub (drop k' s)) \<Longrightarrow>
   str_find sub s = Some k"
proof (induction s arbitrary: k)
  case Nil
  then show ?case by simp
next
  case (Cons c cs)
  show ?case
  proof (cases k)
    case 0
    with Cons.prems show ?thesis by simp
  next
    case (Suc m)
    with Cons.prems have np: "\<not> prefix sub (c # cs)" by force
    from Suc Cons.prems have "prefix sub (drop m cs)" "m \<le> length cs" by simp_all
    moreover have "\<forall>k' < m. \<not> prefix sub (drop k' cs)"
    proof (intro allI impI)
      fix k' assume "k' < m"
      with Suc have "Suc k' < k" by simp
      with Cons.prems(3) have "\<not> prefix sub (drop (Suc k') (c # cs))" by blast
      then show "\<not> prefix sub (drop k' cs)" by simp
    qed
    ultimately have "str_find sub cs = Some m" by (rule Cons.IH)
    with np Suc show ?thesis by simp
  qed
qed

lemma find_top_SomeD:
  "find_top_heading a = Some j \<Longrightarrow>
   prefix (nl # ''##'') (drop j a) \<and> \<not> prefix (nl # ''###'') (drop j a)"
proof (induction a arbitrary: j)
  case Nil
  then show ?case by simp
next
  case (Cons c cs)
  show ?case
  proof (cases "prefix (nl # ''##'') (c # cs) \<and> \<not> prefix (nl # ''###'') (c # cs)")
    case True
    with Cons.prems have "j = 0" by simp
    with True show ?thesis by simp
  next
    case False
    with Cons.prems obtain m where "find_top_heading cs = Some m" "j = Suc m"
      by (auto split: if_splits)
    with Cons.IH show ?thesis by simp
  qed
qed

lemma contains_take:
  assumes "prefix sub (drop k s)" "k + length sub \<le> j"
  shows "contains sub (take j s)"
proof -
  from assms(1) obtain r where r: "drop k s = sub @ r" by (auto simp: prefix_def)
  from assms(2) have "take j s = take (k + (j - k)) s" by simp
  also have "\<dots> = take k s @ take (j - k) (drop k s)" by (rule take_add)
  also have "\<dots> = take k s @ sub @ take (j - k - length sub) r"
    using assms(2) r by simp
  finally show ?thesis unfolding contains_iff by blast
qed

lemma straddle_char:
  assumes "prefix sub (drop k s)" "k \<le> j" "j < k + length sub" "drop j s = c # rest"
  shows "c \<in> set sub"
proof -
  from assms(1) obtain r where r: "drop k s = sub @ r" by (auto simp: prefix_def)
  from assms(2) have "drop j s = drop (j - k) (drop k s)" by simp
  also have "\<dots> = drop (j - k) sub @ r" using r assms(3) by simp
  finally have "c # rest = drop (j - k) sub @ r" using assms(4) by simp
  moreover from assms(2,3) have "drop (j - k) sub \<noteq> []" by simp
  ultimately have "c \<in> set (drop (j - k) sub)"
    by (cases "drop (j - k) sub") auto
  then show ?thesis by (rule in_set_dropD)
qed

lemma str_find_take:
  assumes "str_find sub s = Some j" "j + length sub \<le> k"
  shows "str_find sub (take k s) = Some j"
proof (rule str_find_SomeI)
  from str_find_SomeD [OF assms(1)] obtain r where r: "drop j s = sub @ r"
    by (auto simp: prefix_def)
  have "drop j (take k s) = take (k - j) (drop j s)" by (rule drop_take)
  also have "\<dots> = sub @ take (k - j - length sub) r" using r assms(2) by simp
  finally show "prefix sub (drop j (take k s))" by simp
  from str_find_le [OF assms(1)] assms(2) show "j \<le> length (take k s)" by simp
  show "\<forall>k' < j. \<not> prefix sub (drop k' (take k s))"
  proof (intro allI impI notI)
    fix k' assume "k' < j" and p: "prefix sub (drop k' (take k s))"
    have "drop k' (take k s) = take (k - k') (drop k' s)" by (rule drop_take)
    then have "prefix (drop k' (take k s)) (drop k' s)" by (simp add: take_is_prefix)
    with p have "prefix sub (drop k' s)" by (rule prefix_order.trans)
    with str_find_first [OF assms(1) \<open>k' < j\<close>] show False by blast
  qed
qed

lemma heading_chars: "nl \<notin> set custom_heading" "custom_heading \<noteq> []"
  "prefix ''##'' custom_heading"
  by (simp_all add: custom_heading_def)

lemma heading_not_before_cut:
  assumes top: "find_top_heading a = Some j"
    and k: "prefix custom_heading (drop k a)"
    and inside: "\<not> contains custom_heading (take j a)"
    and next_heading: "\<not> prefix (nl # custom_heading) (drop j a)"
  shows "j + 3 \<le> k"
proof (rule ccontr)
  assume "\<not> j + 3 \<le> k"
  then have small: "k < j + 3" by simp
  from find_top_SomeD [OF top] obtain r where dj: "drop j a = nl # CHR ''#'' # CHR ''#'' # r"
    and shallow: "\<not> prefix (nl # ''###'') (drop j a)"
    by (auto simp: prefix_def)
  have "\<not> k + length custom_heading \<le> j"
    using contains_take [OF k] inside by blast
  then have over: "j < k + length custom_heading" by simp
  have "\<not> k \<le> j"
  proof
    assume "k \<le> j"
    from straddle_char [OF k this over dj] heading_chars(1) show False by blast
  qed
  with small consider "k = Suc j" | "k = Suc (Suc j)" by linarith
  then show False
  proof cases
    case 1
    have "drop (Suc j) a = tl (drop j a)" by (simp add: drop_Suc tl_drop)
    with dj k 1 have "prefix custom_heading (CHR ''#'' # CHR ''#'' # r)" by simp
    with dj have "prefix (nl # custom_heading) (drop j a)" by simp
    with next_heading show False by blast
  next
    case 2
    have "drop (Suc (Suc j)) a = tl (tl (drop j a))" by (simp add: drop_Suc tl_drop)
    with dj k 2 have "prefix custom_heading (CHR ''#'' # r)" by simp
    with heading_chars(3) have "prefix ''##'' (CHR ''#'' # r)"
      by (rule prefix_order.trans)
    then have "prefix ''#'' r" by simp
    with dj have "prefix (nl # ''###'') (drop j a)" by (auto simp: prefix_def)
    with shallow show False by blast
  qed
qed

lemma merge_custom_notes_section:
  assumes "contains custom_heading existing_content"
    and inside: "\<not> contains custom_heading (section_body existing_content)"
    and next_heading: "\<not> prefix (nl # custom_heading) (after_section existing_content)"
    and deeper: "\<not> contains (nl # ''###'') (section_body existing_content)"
  shows "merge_custom_notes existing_content new_overview
           = Inr (new_overview @ [nl] @ notes_section existing_content)"
proof -
  let ?a = "after_heading existing_content"
  let ?sep = "nl # ''##''"
  from assms(1) obtain i where i: "str_find custom_heading existing_content = Some i"
    by (auto simp: contains_def)
  then have a: "?a = drop (i + length custom_heading) existing_content"
    by (simp add: after_heading_def)
  obtain b rest where sb: "split_str custom_heading ?a = b # rest"
    using split_str_not_Nil [of custom_heading ?a]
    by (cases "split_str custom_heading ?a") auto
  with hd_split_str [of custom_heading ?a] heading_chars(2)
  have b: "b = (case str_find custom_heading ?a of None \<Rightarrow> ?a | Some k \<Rightarrow> take k ?a)"
    by simp
  from i a sb heading_chars(2)
  have sp: "split_str custom_heading existing_content = take i existing_content # b # rest"
    by (simp add: split_str_Some)
  from deeper have cut: "str_find ?sep ?a = find_top_heading ?a"
    unfolding section_body_def by (rule top_heading_is_first)
  have body: "(case str_find ?sep b of None \<Rightarrow> b | Some m \<Rightarrow> take m b)
                = section_body existing_content"
  proof (cases "str_find custom_heading ?a")
    case None
    with b have ba: "b = ?a" by simp
    show ?thesis unfolding ba section_body_def cut by (rule refl)
  next
    case (Some k)
    with b have bk: "b = take k ?a" by simp
    from Some have pk: "prefix custom_heading (drop k ?a)" by (rule str_find_SomeD)
    show ?thesis
    proof (cases "find_top_heading ?a")
      case None
      then have "section_body existing_content = ?a" by (simp add: section_body_def)
      with inside Some show ?thesis by (simp add: contains_def)
    next
      case top: (Some j)
      then have sec: "section_body existing_content = take j ?a"
        by (simp add: section_body_def)
      from cut top have fj: "str_find ?sep ?a = Some j" by simp
      from str_find_le [OF fj] have jl: "j \<le> length ?a" by simp
      with sec have "after_section existing_content = drop j ?a"
        by (simp add: after_section_def)
      with next_heading have nh: "\<not> prefix (nl # custom_heading) (drop j ?a)" by simp
      from inside sec have ins: "\<not> contains custom_heading (take j ?a)" by simp
      from heading_not_before_cut [OF top pk ins nh] have "j + length ?sep \<le> k" by simp
      with fj have "str_find ?sep (take k ?a) = Some j" by (rule str_find_take)
      moreover from \<open>j + length ?sep \<le> k\<close> have "take j (take k ?a) = take j ?a"
        by (simp add: min_def)
      ultimately show ?thesis using bk sec by simp
    qed
  qed
  obtain s rest' where ss: "split_str ?sep b = s # rest'"
    using split_str_not_Nil [of ?sep b] by (cases "split_str ?sep b") auto
  with hd_split_str [of ?sep b] body have s: "s = section_body existing_content"
    by simp
  have "merge_custom_notes existing_content new_overview
          = Inr (new_overview @ (nl # ''## Custom Notes'') @ s)"
    using assms(1) sp ss by (simp add: merge_custom_notes_def)
  also have "(nl # ''## Custom Notes'') @ s = [nl] @ notes_section existing_content"
    by (simp add: notes_section_def s custom_heading_def)
  finally show ?thesis .
qed

subsection \<open>The overview file across an update\<close>

lemma bytes_after_write:
  assumes "write_file p name content r = Inr r'"
  shows "read_bytes p name r' = Inr content"
proof -
  from write_file_result [OF assms] obtain d where r': "r' = upd_dir p (put_file name content) r"
    and d: "lookup_dir p r = Some d" by auto
  have "lookup_dir p (upd_dir (p @ []) (put_file name content) r)
          = map_option (upd_dir [] (put_file name content)) (lookup_dir p r)"
    by (rule lookup_upd_dir) (rule keeps_name_put_file)
  with d r' have "lookup_dir p r' = Some (put_file name content d)" by simp
  then show ?thesis by (simp add: read_bytes_def entry_at_def entry_in_put_same)
qed

lemma entry_after_write_other:
  assumes "write_file p name content r = Inr r'" "name' \<noteq> name"
  shows "entry_at p name' r' = entry_at p name' r"
proof -
  from write_file_result [OF assms(1)] obtain d where r': "r' = upd_dir p (put_file name content) r"
    and d: "lookup_dir p r = Some d" by auto
  have "lookup_dir p (upd_dir (p @ []) (put_file name content) r)
          = map_option (upd_dir [] (put_file name content)) (lookup_dir p r)"
    by (rule lookup_upd_dir) (rule keeps_name_put_file)
  with d r' have "lookup_dir p r' = Some (put_file name content d)" by simp
  with d assms(2) show ?thesis by (simp add: entry_at_def entry_in_put_other)
qed

lemma entry_after_write_below:
  assumes "write_file (p @ [m]) name content r = Inr r'"
  shows "entry_at p name' r' = entry_at p name' r"
proof -
  from write_file_result [OF assms] have r': "r' = upd_dir (p @ [m]) (put_file name content) r"
    by simp
  have "lookup_dir p (upd_dir (p @ [m]) (put_file name content) r)
          = map_option (upd_dir [m] (put_file name content)) (lookup_dir p r)"
    by (rule lookup_upd_dir) (rule keeps_name_put_file)
  with r' show ?thesis
    by (cases "lookup_dir p r")
       (simp_all add: entry_at_def entry_in_upd_below keeps_name_put_file del: upd_dir.simps)
qed

lemma entry_after_copy:
  assumes "copy_file p src dst r = Inr r'" "dst \<noteq> src"
  shows "entry_at p src r' = entry_at p src r"
proof -
  from assms(1) obtain content where
    w: "write_file (p @ [dst]) src content r = Inr r' \<or> write_file p dst content r = Inr r'"
    by (auto simp: copy_file_def split: sum.splits option.splits entry.splits)
  then show ?thesis
    using entry_after_write_below [of p dst src content r r' src]
      entry_after_write_other [of p dst content r r' src] assms(2) by blast
qed

lemma names_differ:
  "backup_name \<noteq> overview_name" "overview_name \<noteq> tracker_name" "tracker_name \<noteq> overview_name"
  by (simp_all add: backup_name_def overview_name_def tracker_name_def)

lemma tasks_write:
  assumes "generate_initial_tasks clk path s r = Inr r'"
  shows "\<exists>content. write_file context_dir tracker_name content r = Inr r'"
  using assms by (auto simp: generate_initial_tasks_def split: if_splits sum.splits)

lemma entry_after_tasks:
  assumes "generate_initial_tasks clk path s r = Inr r'"
  shows "entry_at context_dir overview_name r' = entry_at context_dir overview_name r"
proof -
  from tasks_write [OF assms] obtain content where
    "write_file context_dir tracker_name content r = Inr r'" by blast
  then show ?thesis using names_differ by (intro entry_after_write_other)
qed

lemma read_file_entry_at: "read_file p name r = Inr content \<Longrightarrow> entry_at p name r \<noteq> None"
  by (auto simp: read_file_def read_bytes_def split: option.splits)

text \<open>
  Claim C2, as amended. The existing overview is read in text mode, so a carriage return
  followed by a line feed, or a carriage return alone, is read as one line feed. In update
  mode, when the content so read holds the heading \<open>## Custom Notes\<close>, and the
  section that starts at its first occurrence and runs to the next line that starts with
  \<open>##\<close> (or to the end of the file) holds no second occurrence of the heading
  text, is not ended by another \<open>## Custom Notes\<close> heading line, and holds no
  deeper heading line, an analysis that completes writes an overview equal to the freshly
  rendered document, then a line feed, then that section verbatim. So any text of the
  section, such as \<open>keep me\<close>, stands unchanged after the newly rendered
  content.
\<close>

theorem update_keeps_custom_notes:
  assumes "read_file context_dir overview_name root = Inr existing_content"
    and "contains custom_heading existing_content"
    and "\<not> contains custom_heading (section_body existing_content)"
    and "\<not> prefix (nl # custom_heading) (after_section existing_content)"
    and "\<not> contains (nl # ''###'') (section_body existing_content)"
    and "generate_analysis ev True clk path root = Inr (root', a)"
  shows "read_bytes context_dir overview_name root'
           = Inr (generate_project_overview (t_overview clk) path (project_types a) (git_info a)
                    (build_tools a) (structure a)
                  @ [nl] @ notes_section existing_content)"
proof -
  let ?new = "generate_project_overview (t_overview clk) path (project_types a) (git_info a)
                (build_tools a) (structure a)"
  from assms(6) obtain r1 where wo: "write_overview True (t_overview clk) path a root = Inr r1"
    and tasks: "generate_initial_tasks clk path (structure a) r1 = Inr root'"
    by (auto simp: generate_analysis_def Let_def split: sum.splits)
  from assms(1) have ex: "entry_at context_dir overview_name root \<noteq> None"
    by (rule read_file_entry_at)
  with wo obtain rc where cp: "copy_file context_dir overview_name backup_name root = Inr rc"
    by (auto simp: write_overview_def split: sum.splits)
  with names_differ have "entry_at context_dir overview_name rc
                            = entry_at context_dir overview_name root"
    by (intro entry_after_copy)
  with assms(1) have rd: "read_file context_dir overview_name rc = Inr existing_content"
    by (simp add: read_file_def read_bytes_def)
  have mg: "merge_custom_notes existing_content ?new
              = Inr (?new @ [nl] @ notes_section existing_content)"
    using assms(2-5) by (rule merge_custom_notes_section)
  from wo ex cp rd mg
  have "write_file context_dir overview_name (?new @ [nl] @ notes_section existing_content) rc
          = Inr r1"
    by (simp add: write_overview_def)
  then have "read_bytes context_dir overview_name r1
               = Inr (?new @ [nl] @ notes_section existing_content)"
    by (rule bytes_after_write)
  with entry_after_tasks [OF tasks] show ?thesis by (simp add: read_bytes_def)
qed

text \<open>
  The example project stores its overview with CR LF line ends and a
  \<open>## Next Steps\<close> section after the notes; the written overview ends with the
  notes section, line feeds only.
\<close>

theorem update_keeps_custom_notes_witness:
  "\<exists>root' a. generate_analysis example_env True example_clock ''/home/u/proj'' example_notes_project
                 = Inr (root', a)
     \<and> read_bytes context_dir overview_name root'
         = Inr (generate_project_overview example_time ''/home/u/proj'' (project_types a)
                  (git_info a) (build_tools a) (structure a)
                @ ''\<newline>## Custom Notes\<newline>keep me\<newline>'')"
proof -
  let ?old = "''# Project Overview\<newline>old text\<newline>\<newline>## Custom Notes\<newline>keep me\<newline>\<newline>## Next Steps\<newline>1. Review\<newline>''"
  have "\<not> isl (generate_analysis example_env True example_clock ''/home/u/proj'' example_notes_project)"
    by code_simp
  then obtain root' a where
    run: "generate_analysis example_env True example_clock ''/home/u/proj'' example_notes_project
            = Inr (root', a)"
    by (cases "generate_analysis example_env True example_clock ''/home/u/proj'' example_notes_project")
       auto
  have h1: "read_file context_dir overview_name example_notes_project = Inr ?old"
    by code_simp
  have h2: "contains custom_heading ?old" "\<not> contains custom_heading (section_body ?old)"
    "\<not> prefix (nl # custom_heading) (after_section ?old)"
    "\<not> contains (nl # ''###'') (section_body ?old)"
    by code_simp+
  have n: "notes_section ?old = ''## Custom Notes\<newline>keep me\<newline>''"
    by code_simp
  have t: "t_overview example_clock = example_time"
    by (simp add: example_clock_def)
  from update_keeps_custom_notes [OF h1 h2 run] n t run show ?thesis
    by simp
qed

text \<open>
  Claim C2 as first stated fails where the section holds a deeper heading: the code cuts
  the section at the first line feed followed by \<open>##\<close>, which is also the start
  of a \<open>###\<close> line, so the text \<open>more\<close> below
  \<open>### Details\<close> is lost. The code also cuts the section at a second occurrence
  of the heading text, and keeps the closing line feed when the section is ended by another
  \<open>## Custom Notes\<close> heading line.
\<close>

theorem custom_notes_subheading_counterexample:
  "merge_custom_notes
      ''# Old\<newline>## Custom Notes\<newline>keep me\<newline>### Details\<newline>more\<newline>'' ''NEW\<newline>''
     = Inr ''NEW\<newline>\<newline>## Custom Notes\<newline>keep me''
   \<and> notes_section ''# Old\<newline>## Custom Notes\<newline>keep me\<newline>### Details\<newline>more\<newline>''
     = ''## Custom Notes\<newline>keep me\<newline>### Details\<newline>more\<newline>''
   \<and> merge_custom_notes
        ''# Old\<newline>## Custom Notes\<newline>keep me\<newline>### Details\<newline>more\<newline>'' ''NEW\<newline>''
     \<noteq> Inr (''NEW\<newline>'' @ notes_section
               ''# Old\<newline>## Custom Notes\<newline>keep me\<newline>### Details\<newline>more\<newline>'')
   \<and> \<not> contains ''more'' ''NEW\<newline>\<newline>## Custom Notes\<newline>keep me''
   \<and> merge_custom_notes ''## Custom Notes\<newline>see ## Custom Notes above\<newline>keep me\<newline>'' ''NEW\<newline>''
     = Inr ''NEW\<newline>\<newline>## Custom Notes\<newline>see ''
   \<and> notes_section ''## Custom Notes\<newline>see ## Custom Notes above\<newline>keep me\<newline>''
     = ''## Custom Notes\<newline>see ## Custom Notes above\<newline>keep me\<newline>''
   \<and> merge_custom_notes ''## Custom Notes\<newline>keep me\<newline>## Custom Notes\<newline>second\<newline>'' ''NEW\<newline>''
     = Inr ''NEW\<newline>\<newline>## Custom Notes\<newline>keep me\<newline>''
   \<and> notes_section ''## Custom Notes\<newline>keep me\<newline>## Custom Notes\<newline>second\<newline>''
     = ''## Custom Notes\<newline>keep me''"
  by code_simp

section \<open>Properties of the task-tracker file\<close>



















end
